theory Spec2Isabelle
  imports Complex_Main "HOL-Library.Multiset"
begin

section \<open>Data model of \<open>RetrospectiveScreening\<close>\<close>

text \<open>
  The exceptions that the modelled methods can raise. \<open>MissingParameters\<close>,
  \<open>BadShapeError\<close> and \<open>OpenPharmacophoreValueError\<close> are the classes of
  \<open>_private_tools/exceptions.py\<close>; the others are Python's built-in exceptions.
\<close>

datatype error =
    BadShapeError
  | OpenPharmacophoreValueError
  | MissingParameters
  | TypeError
  | IndexError
  | AttributeError
  | AssertionError
  | ZeroDivisionError

text \<open>The value of the attribute \<open>scoring_metric\<close>: the strings "SSD" and "Similarity".\<close>

datatype scoring = SSD | Similarity

text \<open>The three kinds of argument that \<open>__init__\<close> tells apart.\<close>

datatype pharmacophore = Pharmacophore3D | SparseBitVect | OtherObject

text \<open>
  A molecule built by \<open>Chem.MolFromSmiles\<close> and named with \<open>SetProp("_Name", str(id))\<close>;
  an embedding is one of the conformers that \<open>EmbedLib.EmbedPharmacophore\<close> returns for it.
\<close>

record molecule =
  mol_name :: string
  mol_smiles :: string

datatype payload = Mol molecule | Embedding molecule nat

text \<open>The named tuple \<open>MolScore(score, id, mol)\<close>.\<close>

record molscore =
  score :: rat
  ident :: string
  mol :: payload

text \<open>The attributes of a \<open>RetrospectiveScreening\<close> object that the methods read and write.\<close>

record session =
  scoring_metric :: scoring
  n_actives :: int
  n_inactives :: int
  bioactivities :: "int list option"
  molecules :: "molscore list"
  n_molecules :: nat

definition init :: "pharmacophore \<Rightarrow> error + session" where
  "init p =
     (case p of
        Pharmacophore3D \<Rightarrow>
          Inr \<lparr>scoring_metric = SSD, n_actives = 0, n_inactives = 0, bioactivities = None,
               molecules = [], n_molecules = 0\<rparr>
      | SparseBitVect \<Rightarrow>
          Inr \<lparr>scoring_metric = Similarity, n_actives = 0, n_inactives = 0, bioactivities = None,
               molecules = [], n_molecules = 0\<rparr>
      | OtherObject \<Rightarrow> Inl TypeError)"

text \<open>The session right after \<open>__init__\<close>, for either strategy.\<close>

definition fresh :: "scoring \<Rightarrow> session" where
  "fresh m = \<lparr>scoring_metric = m, n_actives = 0, n_inactives = 0, bioactivities = None,
              molecules = [], n_molecules = 0\<rparr>"

section \<open>NumPy primitives\<close>

text \<open>
  Scores and areas are modelled by rationals. A NumPy division by zero does not raise: it
  yields \<open>nan\<close> (for \<open>0/0\<close>) or an infinity, which the type \<open>npfloat\<close> keeps apart
  from the finite values.
\<close>

datatype npfloat = Fin rat | PInf | NInf | NaN

definition np_div :: "rat \<Rightarrow> rat \<Rightarrow> npfloat" where
  "np_div a b =
     (if b \<noteq> 0 then Fin (a / b) else if a = 0 then NaN else if 0 < a then PInf else NInf)"

text \<open>Multiplication of a NumPy float by a positive Python number.\<close>

definition np_scale :: "npfloat \<Rightarrow> rat \<Rightarrow> npfloat" where
  "np_scale x c = (case x of Fin r \<Rightarrow> Fin (r * c) | PInf \<Rightarrow> PInf | NInf \<Rightarrow> NInf | NaN \<Rightarrow> NaN)"

text \<open>
  \<open>np.argsort\<close> with its default kind is not a stable sort: NumPy returns a permutation
  of the indices along which the values ascend, and promises no order among equal
  values. The methods that call it therefore take it as the parameter \<open>argsort\<close>, and
  \<open>is_argsort\<close> states what may be assumed of it. \<open>stable_argsort\<close> is the one such
  function that keeps equal values in input order. \<open>np.sort\<close> returns the ascending
  values, which no tie order can change.
\<close>

type_synonym argsort = "rat list \<Rightarrow> nat list"

definition is_argsort :: "argsort \<Rightarrow> bool" where
  "is_argsort f = (\<forall>xs. sort (f xs) = [0..<length xs] \<and> sorted (map (\<lambda>i. xs ! i) (f xs)))"

definition stable_argsort :: argsort where
  "stable_argsort xs = sort_key (\<lambda>i. xs ! i) [0..<length xs]"

definition np_sort :: "rat list \<Rightarrow> rat list" where
  "np_sort xs = sort xs"

text \<open>
  \<open>self.bioactivities[ii]\<close>: subscripting \<open>None\<close> raises TypeError, an index past the
  end raises IndexError.
\<close>

definition subscript :: "int list option \<Rightarrow> nat \<Rightarrow> error + int" where
  "subscript b i =
     (case b of
        None \<Rightarrow> Inl TypeError
      | Some ls \<Rightarrow> if i < length ls then Inr (ls ! i) else Inl IndexError)"

text \<open>\<open>self.bioactivities[indices]\<close> with an index array.\<close>

definition take_indices :: "int list option \<Rightarrow> nat list \<Rightarrow> error + int list" where
  "take_indices b indices =
     (case b of
        None \<Rightarrow> Inl TypeError
      | Some ls \<Rightarrow>
          if list_all (\<lambda>i. i < length ls) indices then Inr (map (\<lambda>i. ls ! i) indices)
          else Inl IndexError)"

section \<open>\<open>confusion_matrix\<close>\<close>

record cf_counts =
  true_positives :: nat
  true_negatives :: nat
  false_positives :: nat
  false_negatives :: nat

text \<open>The body of the \<open>for ii, mol in enumerate(self.molecules)\<close> loop.\<close>

definition cf_step :: "rat \<Rightarrow> int \<Rightarrow> molscore \<Rightarrow> cf_counts \<Rightarrow> cf_counts" where
  "cf_step threshold label m c =
     (if label = 1 \<and> score m > threshold then c\<lparr>true_positives := true_positives c + 1\<rparr>
      else if label = 1 \<and> score m \<le> threshold then c\<lparr>false_negatives := false_negatives c + 1\<rparr>
      else if label = 0 \<and> score m > threshold then c\<lparr>false_positives := false_positives c + 1\<rparr>
      else if label = 0 \<and> score m \<le> threshold then c\<lparr>true_negatives := true_negatives c + 1\<rparr>
      else c)"

fun cf_loop :: "rat \<Rightarrow> int list option \<Rightarrow> (nat \<times> molscore) list \<Rightarrow> cf_counts \<Rightarrow> error + cf_counts" where
  "cf_loop threshold b [] c = Inr c"
| "cf_loop threshold b ((ii, m) # rest) c =
     (case subscript b ii of
        Inl e \<Rightarrow> Inl e
      | Inr label \<Rightarrow> cf_loop threshold b rest (cf_step threshold label m c))"

definition cf_zero :: cf_counts where
  "cf_zero = \<lparr>true_positives = 0, true_negatives = 0, false_positives = 0, false_negatives = 0\<rparr>"

text \<open>The matrix \<open>[[TP, FP], [FN, TN]]\<close> and the sum of its entries.\<close>

definition cf_matrix :: "cf_counts \<Rightarrow> nat list list" where
  "cf_matrix c = [[true_positives c, false_positives c], [false_negatives c, true_negatives c]]"

definition np_sum :: "nat list list \<Rightarrow> nat" where
  "np_sum m = sum_list (map sum_list m)"

definition confusion_matrix :: "session \<Rightarrow> rat option \<Rightarrow> error + nat list list" where
  "confusion_matrix s threshold =
     (if scoring_metric s = Similarity \<and> threshold = None then Inl MissingParameters
      else
        let thr = (if scoring_metric s = SSD then 0 else the threshold)
        in case cf_loop thr (bioactivities s) (List.enumerate 0 (molecules s)) cf_zero of
             Inl e \<Rightarrow> Inl e
           | Inr c \<Rightarrow>
               if np_sum (cf_matrix c) = n_molecules s then Inr (cf_matrix c)
               else Inl AssertionError)"

section \<open>\<open>AUC\<close>\<close>

definition trapezoid_area :: "rat \<Rightarrow> rat \<Rightarrow> rat \<Rightarrow> rat \<Rightarrow> rat" where
  "trapezoid_area x1 x2 y1 y2 = \<bar>x1 - x2\<bar> * (\<bar>y1 + y2\<bar> / 2)"

text \<open>The local variables of the sweep in \<open>AUC\<close>.\<close>

record auc_state =
  false_pos :: int
  true_pos :: int
  false_pos_prev :: int
  true_pos_prev :: int
  area :: rat
  score_prev :: rat

definition auc_init :: auc_state where
  "auc_init = \<lparr>false_pos = 0, true_pos = 0, false_pos_prev = 0, true_pos_prev = 0,
               area = 0, score_prev = - 10000000\<rparr>"

text \<open>One pass of the \<open>while\<close> loop, at the element \<open>(scores[i], labels[i])\<close>.\<close>

definition auc_step :: "auc_state \<Rightarrow> rat \<times> int \<Rightarrow> auc_state" where
  "auc_step st z =
     (let st1 =
            (if fst z \<noteq> score_prev st
             then st\<lparr>area := area st + trapezoid_area (of_int (false_pos st)) (of_int (false_pos_prev st))
                                                      (of_int (true_pos st)) (of_int (true_pos_prev st)),
                     score_prev := fst z,
                     false_pos_prev := false_pos st,
                     true_pos_prev := true_pos st\<rparr>
             else st)
      in if snd z = 1 then st1\<lparr>true_pos := true_pos st1 + 1\<rparr>
         else st1\<lparr>false_pos := false_pos st1 + 1\<rparr>)"

definition auc_loop :: "(rat \<times> int) list \<Rightarrow> auc_state \<Rightarrow> auc_state" where
  "auc_loop zs st = foldl auc_step st zs"

text \<open>
  The scores sorted in descending order, paired with the labels taken at the reversed
  argsort indices: the sequence that \<open>AUC\<close>, \<open>ROC_plot\<close> and
  \<open>_enrichment_data\<close> sweep.
\<close>

definition sorted_scores :: "session \<Rightarrow> rat list" where
  "sorted_scores s = rev (np_sort (map score (molecules s)))"

definition sorted_indices :: "argsort \<Rightarrow> session \<Rightarrow> nat list" where
  "sorted_indices argsort s = rev (argsort (map score (molecules s)))"

definition sorted_labels :: "argsort \<Rightarrow> session \<Rightarrow> error + int list" where
  "sorted_labels argsort s = take_indices (bioactivities s) (sorted_indices argsort s)"

text \<open>The area before the final assertion and the value that \<open>AUC\<close> returns.\<close>

definition auc_area :: "session \<Rightarrow> int list \<Rightarrow> rat" where
  "auc_area s labels =
     (let st = auc_loop (zip (sorted_scores s) labels) auc_init
      in area st + trapezoid_area (of_int (n_inactives s)) (of_int (false_pos_prev st))
                                  (of_int (n_actives s)) (of_int (true_pos_prev st)))"

definition AUC :: "argsort \<Rightarrow> session \<Rightarrow> error + rat" where
  "AUC argsort s =
     (case sorted_labels argsort s of
        Inl e \<Rightarrow> Inl e
      | Inr labels \<Rightarrow>
          (case np_div (auc_area s labels) (of_int (n_inactives s * n_actives s)) of
             Fin a \<Rightarrow> if 0 \<le> a \<and> a \<le> 1 then Inr a else Inl AssertionError
           | _ \<Rightarrow> Inl AssertionError))"

section \<open>The data series of \<open>ROC_plot\<close>\<close>

record roc_state =
  roc_false_pos :: int
  roc_true_pos :: int
  x :: "npfloat list"
  y :: "npfloat list"
  roc_score_prev :: rat

definition roc_init :: roc_state where
  "roc_init = \<lparr>roc_false_pos = 0, roc_true_pos = 0, x = [], y = [], roc_score_prev = - 10000000\<rparr>"

definition roc_step :: "int \<Rightarrow> int \<Rightarrow> roc_state \<Rightarrow> rat \<times> int \<Rightarrow> roc_state" where
  "roc_step n_negatives n_positives st z =
     (let st1 =
            (if fst z \<noteq> roc_score_prev st
             then st\<lparr>x := x st @ [np_div (of_int (roc_false_pos st)) (of_int n_negatives)],
                     y := y st @ [np_div (of_int (roc_true_pos st)) (of_int n_positives)],
                     roc_score_prev := fst z\<rparr>
             else st)
      in if snd z = 1 then st1\<lparr>roc_true_pos := roc_true_pos st1 + 1\<rparr>
         else st1\<lparr>roc_false_pos := roc_false_pos st1 + 1\<rparr>)"

text \<open>The lists \<open>x\<close> and \<open>y\<close> that \<open>ROC_plot\<close> hands to the plotting library.\<close>

definition ROC_plot :: "argsort \<Rightarrow> session \<Rightarrow> error + npfloat list \<times> npfloat list" where
  "ROC_plot argsort s =
     (case sorted_labels argsort s of
        Inl e \<Rightarrow> Inl e
      | Inr labels \<Rightarrow>
          let st = foldl (roc_step (n_inactives s) (n_actives s)) roc_init
                     (zip (sorted_scores s) labels)
          in Inr (x st @ [np_div (of_int (roc_false_pos st)) (of_int (n_inactives s))],
                  y st @ [np_div (of_int (roc_true_pos st)) (of_int (n_actives s))]))"

section \<open>\<open>_enrichment_data\<close> and \<open>enrichment_factor\<close>\<close>

record enrichment_state =
  actives_counter :: int
  percentage_actives_found :: "npfloat list"
  screened_percentage :: "rat list"

definition enrichment_init :: enrichment_state where
  "enrichment_init = \<lparr>actives_counter = 0, percentage_actives_found = [Fin 0],
                      screened_percentage = [0]\<rparr>"

text \<open>
  The body of \<open>for ii in range(n_molecules)\<close>, at the pair \<open>(ii, bioactivities[ii])\<close>.
  Inside the loop \<open>n_molecules\<close> is positive, so \<open>ii / n_molecules\<close> does not raise.
\<close>

definition enrichment_step :: "int \<Rightarrow> nat \<Rightarrow> enrichment_state \<Rightarrow> nat \<times> int \<Rightarrow> enrichment_state" where
  "enrichment_step n_act n_mol st p =
     (let c = (if snd p = 1 then actives_counter st + 1 else actives_counter st)
      in \<lparr>actives_counter = c,
          percentage_actives_found = percentage_actives_found st @ [np_div (of_int c) (of_int n_act)],
          screened_percentage = screened_percentage st @ [of_nat (fst p) / of_nat n_mol]\<rparr>)"

definition enrichment_data :: "argsort \<Rightarrow> session \<Rightarrow> error + rat list \<times> npfloat list" where
  "enrichment_data argsort s =
     (case sorted_labels argsort s of
        Inl e \<Rightarrow> Inl e
      | Inr labels \<Rightarrow>
          let st = foldl (enrichment_step (n_actives s) (length labels)) enrichment_init
                     (List.enumerate 0 labels)
          in Inr (screened_percentage st, percentage_actives_found st))"

definition enrichment_factor :: "argsort \<Rightarrow> session \<Rightarrow> rat \<Rightarrow> error + npfloat" where
  "enrichment_factor argsort s percentage =
     (if percentage < 0 \<or> percentage > 100 then Inl OpenPharmacophoreValueError
      else
        case enrichment_data argsort s of
          Inl e \<Rightarrow> Inl e
        | Inr (screened, found) \<Rightarrow>
            let order = argsort (filter (\<lambda>v. v \<le> percentage / 100) screened)
            in if order = [] then Inl IndexError
               else if last order < length found then Inr (np_scale (found ! last order) 100)
               else Inl IndexError)"

section \<open>Scoring: \<open>_align_molecules\<close> and \<open>_fingerprint_similarity\<close>\<close>

text \<open>
  What the RDKit calls do with one molecule, as far as \<open>_align_molecules\<close> can tell:
  \<open>MatchPharmacophoreToMol\<close> reports no match; \<open>MatchPharmacophore\<close> reports a failure;
  \<open>AddHs\<close> or \<open>EmbedPharmacophore\<close> raises; or the embeddings are produced and
  \<open>transform_embeddings\<close> returns their SSD values, the k-th value belonging to the k-th
  embedding.
\<close>

datatype alignment = NoMatch | MatchFailed | EmbedRaises | Embedded "rat list"

text \<open>\<open>min(enumerate(SSDs), key=itemgetter(1))\<close>: the first pair with the least value.\<close>

fun py_min :: "nat \<times> rat \<Rightarrow> (nat \<times> rat) list \<Rightarrow> nat \<times> rat" where
  "py_min cur [] = cur"
| "py_min cur (p # ps) = py_min (if snd p < snd cur then p else cur) ps"

definition best_fit_index :: "rat list \<Rightarrow> nat" where
  "best_fit_index ssds = fst (py_min (0, hd ssds) (List.enumerate 0 ssds))"

definition sentinel :: "molecule \<Rightarrow> molscore" where
  "sentinel m = \<lparr>score = 0, ident = mol_name m, mol = Mol m\<rparr>"

text \<open>
  The body of the loop of \<open>_align_molecules\<close> for one molecule. The reciprocal of a zero
  SSD is a Python float division and raises.
\<close>

definition align_body :: "(molecule \<Rightarrow> alignment) \<Rightarrow> session \<Rightarrow> molecule \<Rightarrow> error + session" where
  "align_body aligner s m =
     (case aligner m of
        NoMatch \<Rightarrow> Inr (s\<lparr>molecules := molecules s @ [sentinel m]\<rparr>)
      | MatchFailed \<Rightarrow> Inr (s\<lparr>molecules := molecules s @ [sentinel m]\<rparr>)
      | EmbedRaises \<Rightarrow> Inr s
      | Embedded ssds \<Rightarrow>
          if length ssds = 0 then Inr (s\<lparr>molecules := molecules s @ [sentinel m]\<rparr>)
          else
            let best = best_fit_index ssds
            in if ssds ! best = 0 then Inl ZeroDivisionError
               else Inr (s\<lparr>molecules := molecules s @
                              [\<lparr>score = 1 / (ssds ! best), ident = mol_name m,
                                mol = Embedding m best\<rparr>]\<rparr>))"

text \<open>The loop: the session as the exception leaves it, and the exception if one is raised.\<close>

fun align_loop :: "(molecule \<Rightarrow> alignment) \<Rightarrow> session \<Rightarrow> molecule list \<Rightarrow> session \<times> error option" where
  "align_loop aligner s [] = (s, None)"
| "align_loop aligner s (m # ms) =
     (case align_body aligner s m of
        Inl e \<Rightarrow> (s, Some e)
      | Inr s' \<Rightarrow> align_loop aligner s' ms)"

definition align_molecules :: "(molecule \<Rightarrow> alignment) \<Rightarrow> session \<Rightarrow> molecule list \<Rightarrow> session \<times> error option" where
  "align_molecules aligner s ms = align_loop aligner (s\<lparr>n_molecules := n_molecules s + length ms\<rparr>) ms"

definition fingerprint_body :: "(molecule \<Rightarrow> rat) \<Rightarrow> session \<Rightarrow> molecule \<Rightarrow> session" where
  "fingerprint_body similarity s m =
     s\<lparr>molecules := molecules s @ [\<lparr>score = similarity m, ident = mol_name m, mol = Mol m\<rparr>]\<rparr>"

definition fingerprint_similarity :: "(molecule \<Rightarrow> rat) \<Rightarrow> session \<Rightarrow> molecule list \<Rightarrow> session" where
  "fingerprint_similarity similarity s ms =
     foldl (fingerprint_body similarity) (s\<lparr>n_molecules := length ms\<rparr>) ms"

section \<open>\<open>from_bioactivity_data\<close>\<close>

text \<open>
  The label array, by its rank: a rank-0 array has the shape \<open>()\<close>, a rank-1 array the
  shape \<open>(n,)\<close>, and an array of higher rank is only told apart by its rank and its
  first dimension.
\<close>

datatype ndarray = Rank0 int | Rank1 "int list" | RankN nat

text \<open>
  The loop that builds the molecules: \<open>Chem.MolFromSmiles\<close> returns \<open>None\<close> for a string
  it cannot parse, and \<open>SetProp\<close> on \<open>None\<close> raises AttributeError.
\<close>

fun build_molecules :: "(string \<Rightarrow> bool) \<Rightarrow> (string \<times> string) list \<Rightarrow> error + molecule list" where
  "build_molecules parses [] = Inr []"
| "build_molecules parses ((i, smi) # rest) =
     (if \<not> parses smi then Inl AttributeError
      else case build_molecules parses rest of
             Inl e \<Rightarrow> Inl e
           | Inr ms \<Rightarrow> Inr (\<lparr>mol_name = i, mol_smiles = smi\<rparr> # ms))"

definition from_bioactivity_data ::
  "(string \<Rightarrow> bool) \<Rightarrow> (molecule \<Rightarrow> rat) \<Rightarrow> (molecule \<Rightarrow> alignment) \<Rightarrow>
   session \<Rightarrow> (string \<times> string) list \<Rightarrow> ndarray \<Rightarrow> session \<times> error option" where
  "from_bioactivity_data parses similarity aligner s smiles activity =
     (case activity of
        RankN d \<Rightarrow> (s, Some BadShapeError)
      | Rank0 v \<Rightarrow> (s, Some IndexError)
      | Rank1 labels \<Rightarrow>
          if length smiles \<noteq> length labels then (s, Some OpenPharmacophoreValueError)
          else
            let s1 = s\<lparr>n_actives := sum_list labels,
                       n_inactives := int (length labels) - sum_list labels,
                       bioactivities := Some labels\<rparr>
            in case build_molecules parses smiles of
                 Inl e \<Rightarrow> (s1, Some e)
               | Inr ms \<Rightarrow>
                   (case scoring_metric s1 of
                      Similarity \<Rightarrow> (fingerprint_similarity similarity s1 ms, None)
                    | SSD \<Rightarrow> align_molecules aligner s1 ms))"

section \<open>Populated sessions\<close>

definition binary :: "int list \<Rightarrow> bool" where
  "binary ls = list_all (\<lambda>l. l = 0 \<or> l = 1) ls"

text \<open>
  A session is populated when it holds a label array of zeros and ones, the counters of
  actives and inactives computed from it, and at most one score record per label. It is
  aligned when no molecule was left out of the store, so that record i belongs to label i.
\<close>

definition populated :: "session \<Rightarrow> bool" where
  "populated s =
     (case bioactivities s of
        None \<Rightarrow> False
      | Some ls \<Rightarrow>
          binary ls \<and> n_actives s = sum_list ls \<and> n_inactives s = int (length ls) - sum_list ls
          \<and> length (molecules s) \<le> length ls)"

definition aligned :: "session \<Rightarrow> bool" where
  "aligned s =
     (case bioactivities s of None \<Rightarrow> False | Some ls \<Rightarrow> length (molecules s) = length ls)"

section \<open>Example sessions\<close>

text \<open>
  The scenario of four molecules with the similarities 0.9, 0.8, 0.8, 0.1 and the labels
  1, 0, 1, 0, screened with the fingerprint strategy.
\<close>

definition example_smiles :: "(string \<times> string) list" where
  "example_smiles = [(''a'', ''CCO''), (''b'', ''CCN''), (''c'', ''CCC''), (''d'', ''C'')]"

definition example_similarity :: "molecule \<Rightarrow> rat" where
  "example_similarity m =
     (if mol_name m = ''a'' then 9 / 10 else if mol_name m = ''d'' then 1 / 10 else 8 / 10)"

definition example_aligner :: "molecule \<Rightarrow> alignment" where
  "example_aligner m =
     (if mol_name m = ''a'' then Embedded [1 / 2]
      else if mol_name m = ''b'' then Embedded [2, 1, 1]
      else if mol_name m = ''c'' then EmbedRaises
      else NoMatch)"

definition example_session :: session where
  "example_session =
     fst (from_bioactivity_data (\<lambda>smi. True) example_similarity example_aligner
            (fresh Similarity) example_smiles (Rank1 [1, 0, 1, 0]))"

text \<open>Three molecules screened with the geometric strategy, none of them skipped.\<close>

definition ssd_session :: session where
  "ssd_session =
     fst (from_bioactivity_data (\<lambda>smi. True) example_similarity example_aligner
            (fresh SSD) [(''a'', ''CCO''), (''b'', ''CCN''), (''d'', ''C'')] (Rank1 [1, 0, 0]))"

text \<open>
  Three molecules screened with the geometric strategy; the embedding of the last one,
  an active, raises.
\<close>

definition skip_session :: session where
  "skip_session =
     fst (from_bioactivity_data (\<lambda>smi. True) example_similarity example_aligner
            (fresh SSD) [(''a'', ''CCO''), (''b'', ''CCN''), (''c'', ''CCC'')] (Rank1 [1, 0, 1]))"

text \<open>Two molecules with the same similarity, the first active and the second inactive.\<close>

definition tie_session :: session where
  "tie_session =
     fst (from_bioactivity_data (\<lambda>smi. True) example_similarity example_aligner
            (fresh Similarity) [(''b'', ''CCN''), (''c'', ''CCC'')] (Rank1 [1, 0]))"

text \<open>A single active molecule: a label set without inactives.\<close>

definition one_active_session :: session where
  "one_active_session =
     fst (from_bioactivity_data (\<lambda>smi. True) example_similarity example_aligner
            (fresh Similarity) [(''a'', ''CCO'')] (Rank1 [1]))"

section \<open>Auxiliary definitions\<close>

text \<open>
  The loop of \<open>confusion_matrix\<close> over a label array, as a fold over the records zipped
  with their labels.
\<close>

definition cf_fold :: "rat \<Rightarrow> cf_counts \<Rightarrow> (molscore \<times> int) list \<Rightarrow> cf_counts" where
  "cf_fold thr c zs = foldl (\<lambda>c z. cf_step thr (snd z) (fst z) c) c zs"

text \<open>The molecule that the loop of \<open>from_bioactivity_data\<close> builds from a pair (id, SMILES).\<close>

definition molecule_of :: "string \<times> string \<Rightarrow> molecule" where
  "molecule_of p = \<lparr>mol_name = fst p, mol_smiles = snd p\<rparr>"

text \<open>
  The geometric strategy in the words of the specification, molecule by molecule: the
  records that one input molecule adds to the store. A molecule that cannot be matched,
  or for which no embedding is produced, adds a record with the score 0 and itself as
  payload; a molecule whose embedding raises adds nothing; any other molecule adds one
  record, with the reciprocal of the least SSD as score and the first embedding that
  attains the least SSD as payload.
\<close>

definition first_min_index :: "rat list \<Rightarrow> nat" where
  "first_min_index ssds = length (takeWhile (\<lambda>v. v \<noteq> Min (set ssds)) ssds)"

definition spec_records :: "(molecule \<Rightarrow> alignment) \<Rightarrow> molecule \<Rightarrow> molscore list" where
  "spec_records aligner m =
     (case aligner m of
        NoMatch \<Rightarrow> [\<lparr>score = 0, ident = mol_name m, mol = Mol m\<rparr>]
      | MatchFailed \<Rightarrow> [\<lparr>score = 0, ident = mol_name m, mol = Mol m\<rparr>]
      | EmbedRaises \<Rightarrow> []
      | Embedded ssds \<Rightarrow>
          if ssds = [] then [\<lparr>score = 0, ident = mol_name m, mol = Mol m\<rparr>]
          else [\<lparr>score = 1 / Min (set ssds), ident = mol_name m,
                 mol = Embedding m (first_min_index ssds)\<rparr>])"

text \<open>The molecules whose least SSD is 0, for which the specification names no outcome.\<close>

definition zero_ssd :: "(molecule \<Rightarrow> alignment) \<Rightarrow> molecule \<Rightarrow> bool" where
  "zero_ssd aligner m =
     (case aligner m of Embedded ssds \<Rightarrow> ssds \<noteq> [] \<and> Min (set ssds) = 0 | _ \<Rightarrow> False)"

text \<open>
  An aligner for which the second embedding of the molecule z fits the pharmacophore
  exactly; on every other molecule it is \<open>example_aligner\<close>.
\<close>

definition zero_aligner :: "molecule \<Rightarrow> alignment" where
  "zero_aligner m = (if mol_name m = ''z'' then Embedded [3, 0] else example_aligner m)"

text \<open>The molecules that \<open>_align_molecules\<close> does not skip.\<close>

definition embeds :: "(molecule \<Rightarrow> alignment) \<Rightarrow> molecule \<Rightarrow> bool" where
  "embeds aligner m = (aligner m \<noteq> EmbedRaises)"

text \<open>A second call of \<open>from_bioactivity_data\<close> on \<open>one_active_session\<close>.\<close>

definition twice_session :: session where
  "twice_session =
     fst (from_bioactivity_data (\<lambda>smi. True) example_similarity example_aligner
            one_active_session [(''b'', ''CCN''), (''d'', ''C'')] (Rank1 [0, 1]))"

text \<open>
  Two calls of \<open>from_bioactivity_data\<close> on a session with the geometric strategy: the
  first with one molecule, the second with two molecules of which the first is skipped.
\<close>

definition first_ssd_session :: session where
  "first_ssd_session =
     fst (from_bioactivity_data (\<lambda>smi. True) example_similarity example_aligner
            (fresh SSD) [(''a'', ''CCO'')] (Rank1 [1]))"

definition second_ssd_session :: session where
  "second_ssd_session =
     fst (from_bioactivity_data (\<lambda>smi. True) example_similarity example_aligner
            first_ssd_session [(''c'', ''CCC''), (''b'', ''CCN'')] (Rank1 [0, 1]))"

text \<open>The record that \<open>_fingerprint_similarity\<close> appends for a pair (id, SMILES).\<close>

definition fingerprint_record :: "(molecule \<Rightarrow> rat) \<Rightarrow> string \<times> string \<Rightarrow> molscore" where
  "fingerprint_record similarity p =
     \<lparr>score = similarity (molecule_of p), ident = fst p, mol = Mol (molecule_of p)\<rparr>"


text \<open>The number of labels equal to 1 in a list of labels.\<close>

definition count_actives :: "int list \<Rightarrow> nat" where
  "count_actives ls = length (filter (\<lambda>l. l = 1) ls)"

text \<open>
  The rankings that the specification names, over the records paired by position with
  their labels (an active has the label 1, any other label counts as inactive in the
  sweeps): every active scores strictly above every inactive, every inactive strictly
  above every active, and all scores equal.
\<close>

definition perfect_ranking :: "session \<Rightarrow> bool" where
  "perfect_ranking s =
     (case bioactivities s of
        None \<Rightarrow> False
      | Some ls \<Rightarrow>
          list_all (\<lambda>a. list_all (\<lambda>b. snd a = 1 \<and> snd b \<noteq> 1 \<longrightarrow> score (fst b) < score (fst a))
                              (zip (molecules s) ls))
                   (zip (molecules s) ls))"

definition inverted_ranking :: "session \<Rightarrow> bool" where
  "inverted_ranking s =
     (case bioactivities s of
        None \<Rightarrow> False
      | Some ls \<Rightarrow>
          list_all (\<lambda>a. list_all (\<lambda>b. snd a = 1 \<and> snd b \<noteq> 1 \<longrightarrow> score (fst a) < score (fst b))
                              (zip (molecules s) ls))
                   (zip (molecules s) ls))"

definition equal_scores :: "session \<Rightarrow> bool" where
  "equal_scores s =
     list_all (\<lambda>m. list_all (\<lambda>m'. score m = score m') (molecules s)) (molecules s)"

text \<open>Two molecules, the active one with the lower similarity.\<close>

definition inverted_session :: session where
  "inverted_session =
     fst (from_bioactivity_data (\<lambda>smi. True) example_similarity example_aligner
            (fresh Similarity) [(''d'', ''C''), (''a'', ''CCO'')] (Rank1 [1, 0]))"

text \<open>
  The invariant of the sweep of \<open>AUC\<close>: the counts at the last score change do not
  exceed the running counts, and the accumulated area lies inside the rectangle that the
  counts at the last score change span.
\<close>

definition auc_inv :: "auc_state \<Rightarrow> bool" where
  "auc_inv st =
     (0 \<le> false_pos_prev st \<and> false_pos_prev st \<le> false_pos st
      \<and> 0 \<le> true_pos_prev st \<and> true_pos_prev st \<le> true_pos st
      \<and> 0 \<le> area st
      \<and> area st \<le> of_int (false_pos_prev st) * of_int (true_pos_prev st))"

text \<open>The sequence of (score, label) pairs that the sweeps visit, for a label array.\<close>

definition sweep :: "argsort \<Rightarrow> session \<Rightarrow> int list \<Rightarrow> (rat \<times> int) list" where
  "sweep argsort s ls = zip (sorted_scores s) (map (\<lambda>i. ls ! i) (sorted_indices argsort s))"

section \<open>\<open>confusion_matrix\<close>: thresholds and classification\<close>

lemma cf_loop_Some:
  "k + length ms \<le> length ls \<Longrightarrow>
   cf_loop thr (Some ls) (List.enumerate k ms) c = Inr (cf_fold thr c (zip ms (drop k ls)))"
proof (induction ms arbitrary: k c)
  case Nil
  then show ?case by (simp add: cf_fold_def)
next
  case (Cons m ms)
  from Cons.prems have lt: "k < length ls" and le: "Suc k + length ms \<le> length ls" by simp_all
  from lt have dr: "drop k ls = ls ! k # drop (Suc k) ls" by (simp add: Cons_nth_drop_Suc)
  show ?case
    using Cons.IH [OF le] lt by (simp add: subscript_def dr cf_fold_def)
qed

lemma cf_loop_short:
  "length ls < k + length ms \<Longrightarrow> k \<le> length ls \<Longrightarrow>
   cf_loop thr (Some ls) (List.enumerate k ms) c = Inl IndexError"
proof (induction ms arbitrary: k c)
  case Nil
  then show ?case by simp
next
  case (Cons m ms)
  show ?case
  proof (cases "k < length ls")
    case True
    with Cons.prems have "length ls < Suc k + length ms" "Suc k \<le> length ls" by simp_all
    from Cons.IH [OF this] True show ?thesis by (simp add: subscript_def)
  next
    case False
    then show ?thesis by (simp add: subscript_def)
  qed
qed

lemma cf_fold_counts:
  "true_positives (cf_fold thr c zs) = true_positives c + length (filter (\<lambda>z. snd z = 1 \<and> score (fst z) > thr) zs)"
  "false_positives (cf_fold thr c zs) = false_positives c + length (filter (\<lambda>z. snd z = 0 \<and> score (fst z) > thr) zs)"
  "false_negatives (cf_fold thr c zs) = false_negatives c + length (filter (\<lambda>z. snd z = 1 \<and> \<not> score (fst z) > thr) zs)"
  "true_negatives (cf_fold thr c zs) = true_negatives c + length (filter (\<lambda>z. snd z = 0 \<and> \<not> score (fst z) > thr) zs)"
  unfolding cf_fold_def
  by (induction zs arbitrary: c; simp add: cf_step_def)+

text \<open>
  C6: \<open>confusion_matrix\<close> fails with \<open>MissingParameters\<close> when the strategy is
  "Similarity" and no threshold is given; when the strategy is "SSD" the threshold used is
  0, whatever the caller supplies; and in the matrix it returns a molecule counts as
  predicted active exactly when its score is strictly greater than the threshold used:
  the cells are the numbers of (record, label) pairs with label 1 and score above (TP),
  label 0 and score above (FP), label 1 and score not above (FN), label 0 and score not
  above (TN).
\<close>

theorem confusion_matrix_threshold:
  "(scoring_metric s = Similarity \<longrightarrow> confusion_matrix s None = Inl MissingParameters)
   \<and> (scoring_metric s = SSD \<longrightarrow> confusion_matrix s t = confusion_matrix s (Some 0))
   \<and> (confusion_matrix s t = Inr m \<and> bioactivities s = Some ls \<longrightarrow>
        (let thr = (if scoring_metric s = SSD then 0 else the t);
             zs = zip (molecules s) ls
         in m = [[length (filter (\<lambda>z. snd z = 1 \<and> score (fst z) > thr) zs),
                  length (filter (\<lambda>z. snd z = 0 \<and> score (fst z) > thr) zs)],
                 [length (filter (\<lambda>z. snd z = 1 \<and> \<not> score (fst z) > thr) zs),
                  length (filter (\<lambda>z. snd z = 0 \<and> \<not> score (fst z) > thr) zs)]]))"
proof (intro conjI impI)
  assume "scoring_metric s = Similarity"
  then show "confusion_matrix s None = Inl MissingParameters"
    by (simp add: confusion_matrix_def)
next
  assume "scoring_metric s = SSD"
  then show "confusion_matrix s t = confusion_matrix s (Some 0)"
    by (simp add: confusion_matrix_def)
next
  assume a: "confusion_matrix s t = Inr m \<and> bioactivities s = Some ls"
  define thr where "thr = (if scoring_metric s = SSD then 0 else the t)"
  have len: "length (molecules s) \<le> length ls"
  proof (rule ccontr)
    assume "\<not> length (molecules s) \<le> length ls"
    then have "length ls < 0 + length (molecules s)" by simp
    then have "\<And>thr. cf_loop thr (bioactivities s) (List.enumerate 0 (molecules s)) cf_zero = Inl IndexError"
      using cf_loop_short [of ls 0 "molecules s"] a by simp
    moreover from a have "bioactivities s = Some ls" "confusion_matrix s t = Inr m" by simp_all
    ultimately show False
      by (auto simp: confusion_matrix_def split: if_splits)
  qed
  then have "cf_loop thr (Some ls) (List.enumerate 0 (molecules s)) cf_zero
             = Inr (cf_fold thr cf_zero (zip (molecules s) ls))"
    using cf_loop_Some [of 0 "molecules s" ls thr cf_zero] by simp
  with a have "m = cf_matrix (cf_fold thr cf_zero (zip (molecules s) ls))"
    by (auto simp: confusion_matrix_def thr_def split: if_splits)
  then show "let thr = (if scoring_metric s = SSD then 0 else the t);
             zs = zip (molecules s) ls
         in m = [[length (filter (\<lambda>z. snd z = 1 \<and> score (fst z) > thr) zs),
                  length (filter (\<lambda>z. snd z = 0 \<and> score (fst z) > thr) zs)],
                 [length (filter (\<lambda>z. snd z = 1 \<and> \<not> score (fst z) > thr) zs),
                  length (filter (\<lambda>z. snd z = 0 \<and> \<not> score (fst z) > thr) zs)]]"
    by (simp add: cf_matrix_def cf_fold_counts cf_zero_def thr_def Let_def)
qed

theorem confusion_matrix_threshold_witness:
  "scoring_metric example_session = Similarity
   \<and> confusion_matrix example_session None = Inl MissingParameters
   \<and> scoring_metric ssd_session = SSD
   \<and> confusion_matrix ssd_session (Some 5) = confusion_matrix ssd_session (Some 0)
   \<and> confusion_matrix example_session (Some (1 / 2)) = Inr [[2, 1], [0, 1]]
   \<and> bioactivities example_session = Some [1, 0, 1, 0]
   \<and> [[2, 1], [0, 1]] =
       [[length (filter (\<lambda>z. snd z = 1 \<and> score (fst z) > 1 / 2) (zip (molecules example_session) [1, 0, 1, 0 :: int])),
         length (filter (\<lambda>z. snd z = 0 \<and> score (fst z) > 1 / 2) (zip (molecules example_session) [1, 0, 1, 0 :: int]))],
        [length (filter (\<lambda>z. snd z = 1 \<and> \<not> score (fst z) > 1 / 2) (zip (molecules example_session) [1, 0, 1, 0 :: int])),
         length (filter (\<lambda>z. snd z = 0 \<and> \<not> score (fst z) > 1 / 2) (zip (molecules example_session) [1, 0, 1, 0 :: int]))]]"
proof -
  have h1: "scoring_metric example_session = Similarity" by code_simp
  have h2: "scoring_metric ssd_session = SSD" by code_simp
  have h3: "confusion_matrix example_session (Some (1 / 2)) = Inr [[2, 1], [0, 1]]" by code_simp
  have h4: "bioactivities example_session = Some [1, 0, 1, 0]" by code_simp
  note t1 = confusion_matrix_threshold [of example_session "Some (1 / 2)" "[[2, 1], [0, 1]]" "[1, 0, 1, 0]"]
  note t2 = confusion_matrix_threshold [of ssd_session "Some 5"]
  from t1 h1 have c1: "confusion_matrix example_session None = Inl MissingParameters" by blast
  from t2 h2 have c2: "confusion_matrix ssd_session (Some 5) = confusion_matrix ssd_session (Some 0)"
    by blast
  have
    "let thr = (if scoring_metric example_session = SSD then 0 else the (Some (1 / 2)));
         zs = zip (molecules example_session) [1, 0, 1, 0 :: int]
     in [[2, 1], [0, 1]] =
        [[length (filter (\<lambda>z. snd z = 1 \<and> score (fst z) > thr) zs),
          length (filter (\<lambda>z. snd z = 0 \<and> score (fst z) > thr) zs)],
         [length (filter (\<lambda>z. snd z = 1 \<and> \<not> score (fst z) > thr) zs),
          length (filter (\<lambda>z. snd z = 0 \<and> \<not> score (fst z) > thr) zs)]]"
    by (rule t1 [THEN conjunct2, THEN conjunct2, THEN mp, OF conjI [OF h3 h4]])
  with h1 have c3: "[[2, 1], [0, 1]] =
       [[length (filter (\<lambda>z. snd z = 1 \<and> score (fst z) > 1 / 2) (zip (molecules example_session) [1, 0, 1, 0 :: int])),
         length (filter (\<lambda>z. snd z = 0 \<and> score (fst z) > 1 / 2) (zip (molecules example_session) [1, 0, 1, 0 :: int]))],
        [length (filter (\<lambda>z. snd z = 1 \<and> \<not> score (fst z) > 1 / 2) (zip (molecules example_session) [1, 0, 1, 0 :: int])),
         length (filter (\<lambda>z. snd z = 0 \<and> \<not> score (fst z) > 1 / 2) (zip (molecules example_session) [1, 0, 1, 0 :: int]))]]"
    by (simp add: Let_def)
  from h1 h2 h3 h4 c1 c2 c3 show ?thesis by blast
qed

text \<open>
  C3: the entries of the matrix should sum to \<open>n_molecules\<close>, also when molecules were
  skipped during the geometric scoring. In \<open>skip_session\<close> the embedding of the third
  molecule raises: \<open>n_molecules\<close> is 3, the store holds 2 records, and the assertion
  that guards the return of \<open>confusion_matrix\<close> fails.
\<close>

theorem skipped_molecule_assertion:
  "n_molecules skip_session = 3 \<and> length (molecules skip_session) = 2
   \<and> confusion_matrix skip_session None = Inl AssertionError"
  by code_simp

section \<open>Metrics on a session that was never populated\<close>

text \<open>
  C8, as stated: every metric called on a freshly constructed session should fail with a
  dedicated error. \<open>confusion_matrix\<close> with a threshold returns the zero matrix instead.
\<close>

theorem fresh_confusion_matrix_no_error:
  "confusion_matrix (fresh Similarity) (Some 0) = Inr [[0, 0], [0, 0]]"
  by (simp add: confusion_matrix_def fresh_def cf_zero_def cf_matrix_def np_sum_def enumerate_eq_zip)

lemma fresh_sorted_labels: "sorted_labels argsort (fresh m) = Inl TypeError"
  by (simp add: sorted_labels_def take_indices_def fresh_def)

text \<open>
  C8, amended: on a freshly constructed session \<open>confusion_matrix\<close> returns the zero
  matrix (for "SSD" with any argument, for "Similarity" when a threshold is given, and
  fails with \<open>MissingParameters\<close> for "Similarity" without one); \<open>AUC\<close>, the ROC
  data and the enrichment data fail with Python's TypeError, since the label array is
  still \<open>None\<close>; \<open>enrichment_factor\<close> fails with \<open>OpenPharmacophoreValueError\<close> for a
  percentage outside [0, 100] and with TypeError otherwise.
\<close>

theorem fresh_metrics:
  "confusion_matrix (fresh SSD) t = Inr [[0, 0], [0, 0]]
   \<and> confusion_matrix (fresh Similarity) (Some v) = Inr [[0, 0], [0, 0]]
   \<and> confusion_matrix (fresh Similarity) None = Inl MissingParameters
   \<and> AUC argsort (fresh m) = Inl TypeError
   \<and> ROC_plot argsort (fresh m) = Inl TypeError
   \<and> enrichment_data argsort (fresh m) = Inl TypeError
   \<and> enrichment_factor argsort (fresh m) p =
       (if p < 0 \<or> p > 100 then Inl OpenPharmacophoreValueError else Inl TypeError)"
proof -
  have cm: "confusion_matrix (fresh SSD) t = Inr [[0, 0], [0, 0]]"
    "confusion_matrix (fresh Similarity) (Some v) = Inr [[0, 0], [0, 0]]"
    "confusion_matrix (fresh Similarity) None = Inl MissingParameters"
    by (simp_all add: confusion_matrix_def fresh_def cf_zero_def cf_matrix_def np_sum_def enumerate_eq_zip)
  have "AUC argsort (fresh m) = Inl TypeError" "ROC_plot argsort (fresh m) = Inl TypeError"
    "enrichment_data argsort (fresh m) = Inl TypeError"
    by (simp_all add: AUC_def ROC_plot_def enrichment_data_def fresh_sorted_labels)
  then show ?thesis using cm
    by (simp add: enrichment_factor_def)
qed

section \<open>The geometric strategy, molecule by molecule\<close>

lemma py_min_enumerate:
  "i < k \<Longrightarrow> py_min (i, v) (List.enumerate k xs) = (j, w) \<Longrightarrow>
   w = Min (insert v (set xs)) \<and> ((j = i \<and> w = v) \<or> (k \<le> j \<and> j < k + length xs \<and> xs ! (j - k) = w))"
proof (induction xs arbitrary: i v k)
  case Nil
  then show ?case by simp
next
  case (Cons a xs)
  show ?case
  proof (cases "a < v")
    case True
    with Cons.prems have pm: "py_min (k, a) (List.enumerate (Suc k) xs) = (j, w)" by simp
    have "k < Suc k" by simp
    from Cons.IH [OF this pm] have w: "w = Min (insert a (set xs))"
      and d: "(j = k \<and> w = a) \<or> (Suc k \<le> j \<and> j < Suc k + length xs \<and> xs ! (j - Suc k) = w)" by blast+
    have "Min (insert v (set (a # xs))) = Min (insert a (set xs))"
    proof -
      define M where "M = Min (insert a (set xs))"
      have "Min (insert v (insert a (set xs))) = min v M"
        unfolding M_def by (rule Min_insert) simp_all
      moreover have "M \<le> a" unfolding M_def by simp
      ultimately have "Min (insert v (insert a (set xs))) = M" using True by (simp add: min_def)
      then show ?thesis by (simp add: M_def)
    qed
    with w have w': "w = Min (insert v (set (a # xs)))" by simp
    from d show ?thesis
    proof
      assume "j = k \<and> w = a"
      then show ?thesis using w' by simp
    next
      assume h: "Suc k \<le> j \<and> j < Suc k + length xs \<and> xs ! (j - Suc k) = w"
      then have "(a # xs) ! (j - k) = w"
        by (metis Suc_diff_le diff_Suc_Suc nth_Cons_Suc)
      with h w' show ?thesis by simp
    qed
  next
    case False
    with Cons.prems have pm: "py_min (i, v) (List.enumerate (Suc k) xs) = (j, w)" by simp
    from Cons.prems have "i < Suc k" by simp
    from Cons.IH [OF this pm] have w: "w = Min (insert v (set xs))"
      and d: "(j = i \<and> w = v) \<or> (Suc k \<le> j \<and> j < Suc k + length xs \<and> xs ! (j - Suc k) = w)" by blast+
    have "Min (insert v (set (a # xs))) = Min (insert v (set xs))"
    proof -
      define M where "M = Min (insert v (set xs))"
      have "Min (insert a (insert v (set xs))) = min a M"
        unfolding M_def by (rule Min_insert) simp_all
      moreover have "M \<le> v" unfolding M_def by simp
      ultimately have "Min (insert a (insert v (set xs))) = M" using False by (simp add: min_def)
      then show ?thesis by (simp add: M_def insert_commute)
    qed
    with w have w': "w = Min (insert v (set (a # xs)))" by simp
    from d show ?thesis
    proof
      assume "j = i \<and> w = v"
      then show ?thesis using w' by simp
    next
      assume h: "Suc k \<le> j \<and> j < Suc k + length xs \<and> xs ! (j - Suc k) = w"
      then have "(a # xs) ! (j - k) = w"
        by (metis Suc_diff_le diff_Suc_Suc nth_Cons_Suc)
      with h w' show ?thesis by simp
    qed
  qed
qed

lemma best_fit_index_min:
  assumes "ssds \<noteq> []"
  shows "best_fit_index ssds < length ssds \<and> ssds ! best_fit_index ssds = Min (set ssds)"
proof -
  from assms obtain a xs where ax: "ssds = a # xs" by (cases ssds) auto
  obtain j w where jw: "py_min (0, a) (List.enumerate (Suc 0) xs) = (j, w)" by force
  have "(0::nat) < Suc 0" by simp
  from py_min_enumerate [OF this jw]
  have w: "w = Min (insert a (set xs))"
    and d: "(j = 0 \<and> w = a) \<or> (Suc 0 \<le> j \<and> j < Suc 0 + length xs \<and> xs ! (j - Suc 0) = w)" by blast+
  have b: "best_fit_index ssds = j" using jw by (simp add: best_fit_index_def ax)
  from d have "j < length ssds \<and> ssds ! j = w"
  proof
    assume "j = 0 \<and> w = a" then show ?thesis by (simp add: ax)
  next
    assume "Suc 0 \<le> j \<and> j < Suc 0 + length xs \<and> xs ! (j - Suc 0) = w"
    then show ?thesis by (cases j) (simp_all add: ax)
  qed
  with b w show ?thesis by (simp add: ax)
qed

lemma py_min_first:
  "py_min (i, v) (List.enumerate k vs) =
     (if \<forall>a\<in>set vs. v \<le> a then (i, v)
      else (k + length (takeWhile (\<lambda>a. a \<noteq> Min (set vs)) vs), Min (set vs)))"
proof (induction vs arbitrary: i v k)
  case Nil
  show ?case by simp
next
  case (Cons a vs)
  show ?case
  proof (cases "vs = []")
    case True
    then show ?thesis by auto
  next
    case False
    define M where "M = Min (set vs)"
    have ge: "(\<forall>b\<in>set vs. c \<le> b) = (c \<le> M)" for c
      unfolding M_def using False by (simp add: Min_ge_iff)
    have mn: "Min (set (a # vs)) = min a M"
      unfolding M_def using False by simp
    have step: "py_min (i, v) (List.enumerate k (a # vs)) =
                py_min (if a < v then (k, a) else (i, v)) (List.enumerate (Suc k) vs)"
      by simp
    show ?thesis
    proof (cases "a < v")
      case True
      with step have "py_min (i, v) (List.enumerate k (a # vs)) =
                      (if a \<le> M then (k, a)
                       else (Suc k + length (takeWhile (\<lambda>b. b \<noteq> M) vs), M))"
        by (simp add: Cons.IH ge M_def [symmetric])
      moreover have "\<not> (\<forall>b\<in>set (a # vs). v \<le> b)" using True by auto
      moreover have "(k + length (takeWhile (\<lambda>b. b \<noteq> min a M) (a # vs)), min a M) =
                     (if a \<le> M then (k, a)
                      else (Suc k + length (takeWhile (\<lambda>b. b \<noteq> M) vs), M))"
        by (auto simp: min_def)
      ultimately show ?thesis by (simp only: mn if_False)
    next
      case nlt: False
      with step have e: "py_min (i, v) (List.enumerate k (a # vs)) =
                      (if v \<le> M then (i, v)
                       else (Suc k + length (takeWhile (\<lambda>b. b \<noteq> M) vs), M))"
        by (simp add: Cons.IH ge M_def [symmetric])
      show ?thesis
      proof (cases "v \<le> M")
        case True
        with nlt have "\<forall>b\<in>set (a # vs). v \<le> b" using ge [of v] by auto
        with e True show ?thesis by simp
      next
        case vM: False
        with nlt have am: "M < a" by simp
        from vM have "\<not> (\<forall>b\<in>set (a # vs). v \<le> b)" using ge [of v] by auto
        moreover from am have "(k + length (takeWhile (\<lambda>b. b \<noteq> min a M) (a # vs)), min a M) =
                     (Suc k + length (takeWhile (\<lambda>b. b \<noteq> M) vs), M)"
          by (auto simp: min_def)
        ultimately show ?thesis using e vM by (simp only: mn if_False)
      qed
    qed
  qed
qed

lemma best_fit_first:
  assumes "ssds \<noteq> []"
  shows "best_fit_index ssds = first_min_index ssds"
proof -
  from assms obtain a vs where av: "ssds = a # vs" by (cases ssds) auto
  have b: "best_fit_index ssds = fst (py_min (0, a) (List.enumerate (Suc 0) vs))"
    by (simp add: best_fit_index_def av)
  show ?thesis
  proof (cases "vs = []")
    case True
    then show ?thesis by (simp add: best_fit_index_def first_min_index_def av)
  next
    case False
    define M where "M = Min (set vs)"
    have ge: "(\<forall>b\<in>set vs. a \<le> b) = (a \<le> M)"
      unfolding M_def using False by (simp add: Min_ge_iff)
    have mn: "Min (set (a # vs)) = min a M"
      unfolding M_def using False by simp
    have "best_fit_index ssds = (if a \<le> M then 0 else Suc (length (takeWhile (\<lambda>b. b \<noteq> M) vs)))"
      by (simp add: b py_min_first ge M_def [symmetric])
    moreover have "first_min_index ssds = (if a \<le> M then 0 else Suc (length (takeWhile (\<lambda>b. b \<noteq> M) vs)))"
      unfolding first_min_index_def av mn by (auto simp: min_def)
    ultimately show ?thesis by simp
  qed
qed

lemma first_min_index_first:
  "j < first_min_index ssds \<Longrightarrow> ssds ! j \<noteq> Min (set ssds)"
proof -
  assume j: "j < first_min_index ssds"
  define tw where "tw = takeWhile (\<lambda>v. v \<noteq> Min (set ssds)) ssds"
  from j have jl: "j < length tw" by (simp add: first_min_index_def tw_def)
  then have "tw ! j = ssds ! j" unfolding tw_def by (rule takeWhile_nth)
  moreover from jl have "tw ! j \<in> set tw" by simp
  then have "tw ! j \<noteq> Min (set ssds)" unfolding tw_def by (auto dest: set_takeWhileD)
  ultimately show ?thesis by simp
qed

lemma align_body_spec:
  "align_body aligner s m =
     (if zero_ssd aligner m then Inl ZeroDivisionError
      else Inr (s\<lparr>molecules := molecules s @ spec_records aligner m\<rparr>))"
proof (cases "aligner m")
  case (Embedded ssds)
  show ?thesis
  proof (cases "ssds = []")
    case True
    with Embedded show ?thesis
      by (simp add: align_body_def zero_ssd_def spec_records_def sentinel_def)
  next
    case False
    from best_fit_index_min [OF False] have "ssds ! best_fit_index ssds = Min (set ssds)" by simp
    with Embedded False best_fit_first [OF False] show ?thesis
      by (simp add: align_body_def zero_ssd_def spec_records_def Let_def)
  qed
qed (simp_all add: align_body_def zero_ssd_def spec_records_def sentinel_def)

lemma align_loop_spec:
  "align_loop aligner s ms =
     (s\<lparr>molecules := molecules s @
          concat (map (spec_records aligner) (takeWhile (\<lambda>m. \<not> zero_ssd aligner m) ms))\<rparr>,
      if list_all (\<lambda>m. \<not> zero_ssd aligner m) ms then None else Some ZeroDivisionError)"
  by (induction ms arbitrary: s) (simp_all add: align_body_spec)

text \<open>
  C7, as stated: every input molecule that is matched and embedded, with a nonempty SSD
  set, should get a record with the score 1/SSD of its best embedding, and every input
  molecule one of the three outcomes. With \<open>zero_aligner\<close> the best embedding of the
  molecule z has the SSD 0: the reciprocal raises ZeroDivisionError, which leaves
  \<open>_align_molecules\<close>. No record is appended for z, and none for the molecule b that
  follows it; the record of a and the counter \<open>n_molecules\<close> stay as they were set.
\<close>

theorem zero_ssd_aborts:
  "zero_aligner (molecule_of (''z'', ''O'')) = Embedded [3, 0]
   \<and> zero_aligner (molecule_of (''b'', ''CCN'')) = Embedded [2, 1, 1]
   \<and> align_molecules zero_aligner (fresh SSD)
       [molecule_of (''a'', ''CCO''), molecule_of (''z'', ''O''), molecule_of (''b'', ''CCN'')] =
       ((fresh SSD)\<lparr>n_molecules := 3,
                    molecules := [\<lparr>score = 2, ident = ''a'',
                                   mol = Embedding (molecule_of (''a'', ''CCO'')) 0\<rparr>]\<rparr>,
        Some ZeroDivisionError)"
  by code_simp

text \<open>
  C7, amended: \<open>_align_molecules\<close> adds the number of input molecules to \<open>n_molecules\<close>
  and goes through the input molecules in order, up to the first one whose least SSD is
  0: there the reciprocal raises ZeroDivisionError and the run ends, the records appended
  so far staying in the store. For every molecule before that one (for every input
  molecule when no least SSD is 0): if the match fails or the SSD set is empty, a record
  with the score 0 and the molecule itself as payload is appended; if the embedding step
  raises, nothing is appended; otherwise one record is appended, whose score is the
  reciprocal of the least SSD and whose payload is the first embedding with the least
  SSD.
\<close>

theorem align_molecules_records:
  "align_molecules aligner s ms =
     (s\<lparr>n_molecules := n_molecules s + length ms,
        molecules := molecules s @
          concat (map (spec_records aligner) (takeWhile (\<lambda>m. \<not> zero_ssd aligner m) ms))\<rparr>,
      if list_all (\<lambda>m. \<not> zero_ssd aligner m) ms then None else Some ZeroDivisionError)
   \<and> (aligner m = NoMatch \<or> aligner m = MatchFailed \<or> aligner m = Embedded [] \<longrightarrow>
        \<not> zero_ssd aligner m
        \<and> spec_records aligner m = [\<lparr>score = 0, ident = mol_name m, mol = Mol m\<rparr>])
   \<and> (aligner m = EmbedRaises \<longrightarrow> \<not> zero_ssd aligner m \<and> spec_records aligner m = [])
   \<and> (aligner m = Embedded ssds \<and> ssds \<noteq> [] \<longrightarrow>
        zero_ssd aligner m = (Min (set ssds) = 0)
        \<and> (\<exists>k < length ssds. ssds ! k = Min (set ssds) \<and> (\<forall>j < k. ssds ! j \<noteq> Min (set ssds))
             \<and> spec_records aligner m =
                 [\<lparr>score = 1 / Min (set ssds), ident = mol_name m, mol = Embedding m k\<rparr>]))"
proof (intro conjI impI)
  show "align_molecules aligner s ms =
     (s\<lparr>n_molecules := n_molecules s + length ms,
        molecules := molecules s @
          concat (map (spec_records aligner) (takeWhile (\<lambda>m. \<not> zero_ssd aligner m) ms))\<rparr>,
      if list_all (\<lambda>m. \<not> zero_ssd aligner m) ms then None else Some ZeroDivisionError)"
    by (simp add: align_molecules_def align_loop_spec)
next
  assume a: "aligner m = NoMatch \<or> aligner m = MatchFailed \<or> aligner m = Embedded []"
  then show "\<not> zero_ssd aligner m" by (auto simp: zero_ssd_def)
  from a show "spec_records aligner m = [\<lparr>score = 0, ident = mol_name m, mol = Mol m\<rparr>]"
    by (auto simp: spec_records_def)
next
  assume a: "aligner m = EmbedRaises"
  then show "\<not> zero_ssd aligner m" by (simp add: zero_ssd_def)
  from a show "spec_records aligner m = []" by (simp add: spec_records_def)
next
  assume a: "aligner m = Embedded ssds \<and> ssds \<noteq> []"
  then have ne: "ssds \<noteq> []" by simp
  from a show "zero_ssd aligner m = (Min (set ssds) = 0)" by (simp add: zero_ssd_def)
  from best_fit_index_min [OF ne] best_fit_first [OF ne]
  have f: "first_min_index ssds < length ssds" "ssds ! first_min_index ssds = Min (set ssds)"
    by simp_all
  have g: "\<forall>j < first_min_index ssds. ssds ! j \<noteq> Min (set ssds)"
    using first_min_index_first by blast
  from a have "spec_records aligner m =
      [\<lparr>score = 1 / Min (set ssds), ident = mol_name m, mol = Embedding m (first_min_index ssds)\<rparr>]"
    by (simp add: spec_records_def)
  with f g show "\<exists>k < length ssds. ssds ! k = Min (set ssds) \<and> (\<forall>j < k. ssds ! j \<noteq> Min (set ssds))
             \<and> spec_records aligner m =
                 [\<lparr>score = 1 / Min (set ssds), ident = mol_name m, mol = Embedding m k\<rparr>]"
    by blast
qed

theorem align_molecules_records_witness:
  "zero_aligner (molecule_of (''d'', ''C'')) = NoMatch
   \<and> zero_aligner (molecule_of (''c'', ''CCC'')) = EmbedRaises
   \<and> zero_aligner (molecule_of (''b'', ''CCN'')) = Embedded [2, 1, 1]
   \<and> [2, 1, 1 :: rat] \<noteq> [] \<and> Min (set [2, 1, 1 :: rat]) = 1
   \<and> align_molecules zero_aligner (fresh SSD)
       [molecule_of (''d'', ''C''), molecule_of (''c'', ''CCC''), molecule_of (''b'', ''CCN''),
        molecule_of (''a'', ''CCO'')] =
       ((fresh SSD)\<lparr>n_molecules := 4,
                    molecules := [\<lparr>score = 0, ident = ''d'', mol = Mol (molecule_of (''d'', ''C''))\<rparr>,
                                  \<lparr>score = 1, ident = ''b'',
                                   mol = Embedding (molecule_of (''b'', ''CCN'')) 1\<rparr>,
                                  \<lparr>score = 2, ident = ''a'',
                                   mol = Embedding (molecule_of (''a'', ''CCO'')) 0\<rparr>]\<rparr>,
        None)
   \<and> align_molecules zero_aligner first_ssd_session
       [molecule_of (''b'', ''CCN''), molecule_of (''z'', ''O''), molecule_of (''d'', ''C'')] =
       (first_ssd_session\<lparr>n_molecules := 4,
                          molecules := [\<lparr>score = 2, ident = ''a'',
                                         mol = Embedding (molecule_of (''a'', ''CCO'')) 0\<rparr>,
                                        \<lparr>score = 1, ident = ''b'',
                                         mol = Embedding (molecule_of (''b'', ''CCN'')) 1\<rparr>]\<rparr>,
        Some ZeroDivisionError)
   \<and> spec_records zero_aligner (molecule_of (''d'', ''C'')) =
       [\<lparr>score = 0, ident = ''d'', mol = Mol (molecule_of (''d'', ''C''))\<rparr>]
   \<and> spec_records zero_aligner (molecule_of (''c'', ''CCC'')) = []
   \<and> \<not> zero_ssd zero_aligner (molecule_of (''b'', ''CCN''))
   \<and> (\<exists>k < length [2, 1, 1 :: rat]. [2, 1, 1 :: rat] ! k = 1 \<and> (\<forall>j < k. [2, 1, 1 :: rat] ! j \<noteq> 1)
        \<and> spec_records zero_aligner (molecule_of (''b'', ''CCN'')) =
            [\<lparr>score = 1, ident = ''b'', mol = Embedding (molecule_of (''b'', ''CCN'')) k\<rparr>])"
proof -
  have h1: "zero_aligner (molecule_of (''d'', ''C'')) = NoMatch" by code_simp
  have h2: "zero_aligner (molecule_of (''c'', ''CCC'')) = EmbedRaises" by code_simp
  have h3: "zero_aligner (molecule_of (''b'', ''CCN'')) = Embedded [2, 1, 1]" by code_simp
  have h4: "[2, 1, 1 :: rat] \<noteq> []" by simp
  have h5: "Min (set [2, 1, 1 :: rat]) = 1" by simp
  note t1 = align_molecules_records [of zero_aligner "fresh SSD"
      "[molecule_of (''d'', ''C''), molecule_of (''c'', ''CCC''), molecule_of (''b'', ''CCN''),
        molecule_of (''a'', ''CCO'')]" "molecule_of (''d'', ''C'')"]
  note t2 = align_molecules_records [of zero_aligner first_ssd_session
      "[molecule_of (''b'', ''CCN''), molecule_of (''z'', ''O''), molecule_of (''d'', ''C'')]"
      "molecule_of (''c'', ''CCC'')"]
  note t3 = align_molecules_records [of zero_aligner "fresh SSD" "[]"
      "molecule_of (''b'', ''CCN'')" "[2, 1, 1]"]
  have r1: "((fresh SSD)\<lparr>n_molecules := n_molecules (fresh SSD) +
                 length [molecule_of (''d'', ''C''), molecule_of (''c'', ''CCC''),
                         molecule_of (''b'', ''CCN''), molecule_of (''a'', ''CCO'')],
               molecules := molecules (fresh SSD) @
                 concat (map (spec_records zero_aligner)
                   (takeWhile (\<lambda>m. \<not> zero_ssd zero_aligner m)
                      [molecule_of (''d'', ''C''), molecule_of (''c'', ''CCC''),
                       molecule_of (''b'', ''CCN''), molecule_of (''a'', ''CCO'')]))\<rparr>,
             if list_all (\<lambda>m. \<not> zero_ssd zero_aligner m)
                  [molecule_of (''d'', ''C''), molecule_of (''c'', ''CCC''),
                   molecule_of (''b'', ''CCN''), molecule_of (''a'', ''CCO'')]
             then None else Some ZeroDivisionError) =
       ((fresh SSD)\<lparr>n_molecules := 4,
                    molecules := [\<lparr>score = 0, ident = ''d'', mol = Mol (molecule_of (''d'', ''C''))\<rparr>,
                                  \<lparr>score = 1, ident = ''b'',
                                   mol = Embedding (molecule_of (''b'', ''CCN'')) 1\<rparr>,
                                  \<lparr>score = 2, ident = ''a'',
                                   mol = Embedding (molecule_of (''a'', ''CCO'')) 0\<rparr>]\<rparr>,
        None)"
    by code_simp
  have r2: "(first_ssd_session\<lparr>n_molecules := n_molecules first_ssd_session +
                 length [molecule_of (''b'', ''CCN''), molecule_of (''z'', ''O''),
                         molecule_of (''d'', ''C'')],
               molecules := molecules first_ssd_session @
                 concat (map (spec_records zero_aligner)
                   (takeWhile (\<lambda>m. \<not> zero_ssd zero_aligner m)
                      [molecule_of (''b'', ''CCN''), molecule_of (''z'', ''O''),
                       molecule_of (''d'', ''C'')]))\<rparr>,
             if list_all (\<lambda>m. \<not> zero_ssd zero_aligner m)
                  [molecule_of (''b'', ''CCN''), molecule_of (''z'', ''O''),
                   molecule_of (''d'', ''C'')]
             then None else Some ZeroDivisionError) =
       (first_ssd_session\<lparr>n_molecules := 4,
                          molecules := [\<lparr>score = 2, ident = ''a'',
                                         mol = Embedding (molecule_of (''a'', ''CCO'')) 0\<rparr>,
                                        \<lparr>score = 1, ident = ''b'',
                                         mol = Embedding (molecule_of (''b'', ''CCN'')) 1\<rparr>]\<rparr>,
        Some ZeroDivisionError)"
    by code_simp
  have c1: "align_molecules zero_aligner (fresh SSD)
       [molecule_of (''d'', ''C''), molecule_of (''c'', ''CCC''), molecule_of (''b'', ''CCN''),
        molecule_of (''a'', ''CCO'')] =
       ((fresh SSD)\<lparr>n_molecules := 4,
                    molecules := [\<lparr>score = 0, ident = ''d'', mol = Mol (molecule_of (''d'', ''C''))\<rparr>,
                                  \<lparr>score = 1, ident = ''b'',
                                   mol = Embedding (molecule_of (''b'', ''CCN'')) 1\<rparr>,
                                  \<lparr>score = 2, ident = ''a'',
                                   mol = Embedding (molecule_of (''a'', ''CCO'')) 0\<rparr>]\<rparr>,
        None)"
    by (rule trans [OF t1 [THEN conjunct1] r1])
  have c2: "align_molecules zero_aligner first_ssd_session
       [molecule_of (''b'', ''CCN''), molecule_of (''z'', ''O''), molecule_of (''d'', ''C'')] =
       (first_ssd_session\<lparr>n_molecules := 4,
                          molecules := [\<lparr>score = 2, ident = ''a'',
                                         mol = Embedding (molecule_of (''a'', ''CCO'')) 0\<rparr>,
                                        \<lparr>score = 1, ident = ''b'',
                                         mol = Embedding (molecule_of (''b'', ''CCN'')) 1\<rparr>]\<rparr>,
        Some ZeroDivisionError)"
    by (rule trans [OF t2 [THEN conjunct1] r2])
  from t1 h1 have c3: "spec_records zero_aligner (molecule_of (''d'', ''C'')) =
       [\<lparr>score = 0, ident = ''d'', mol = Mol (molecule_of (''d'', ''C''))\<rparr>]"
    by (simp add: molecule_of_def)
  from t2 h2 have c4: "spec_records zero_aligner (molecule_of (''c'', ''CCC'')) = []" by blast
  from t3 h3 h4 have z: "zero_ssd zero_aligner (molecule_of (''b'', ''CCN'')) = (Min (set [2, 1, 1 :: rat]) = 0)"
    by blast
  then have c5: "\<not> zero_ssd zero_aligner (molecule_of (''b'', ''CCN''))" unfolding h5 by simp
  from t3 h3 h4 have "\<exists>k < length [2, 1, 1 :: rat]. [2, 1, 1 :: rat] ! k = Min (set [2, 1, 1])
        \<and> (\<forall>j < k. [2, 1, 1 :: rat] ! j \<noteq> Min (set [2, 1, 1]))
        \<and> spec_records zero_aligner (molecule_of (''b'', ''CCN'')) =
            [\<lparr>score = 1 / Min (set [2, 1, 1]), ident = mol_name (molecule_of (''b'', ''CCN'')),
              mol = Embedding (molecule_of (''b'', ''CCN'')) k\<rparr>]"
    by blast
  then have c6: "\<exists>k < length [2, 1, 1 :: rat]. [2, 1, 1 :: rat] ! k = 1 \<and> (\<forall>j < k. [2, 1, 1 :: rat] ! j \<noteq> 1)
        \<and> spec_records zero_aligner (molecule_of (''b'', ''CCN'')) =
            [\<lparr>score = 1, ident = ''b'', mol = Embedding (molecule_of (''b'', ''CCN'')) k\<rparr>]"
    unfolding h5 by (simp add: molecule_of_def)
  from h1 h2 h3 h4 h5 c1 c2 c3 c4 c5 c6 show ?thesis by (intro conjI)
qed

section \<open>Populating a session\<close>

lemma build_molecules_Inr:
  "build_molecules parses smiles = Inr ms \<Longrightarrow> ms = map molecule_of smiles"
  by (induction smiles arbitrary: ms)
     (auto simp: molecule_of_def split: if_splits sum.splits)

lemma fingerprint_foldl:
  "foldl (fingerprint_body sim) s ms =
     s\<lparr>molecules := molecules s @ map (\<lambda>m. \<lparr>score = sim m, ident = mol_name m, mol = Mol m\<rparr>) ms\<rparr>"
  by (induction ms arbitrary: s) (simp_all add: fingerprint_body_def)

lemma fingerprint_similarity_eq:
  "fingerprint_similarity sim s ms =
     s\<lparr>n_molecules := length ms,
       molecules := molecules s @ map (\<lambda>m. \<lparr>score = sim m, ident = mol_name m, mol = Mol m\<rparr>) ms\<rparr>"
  by (simp add: fingerprint_similarity_def fingerprint_foldl)

lemma align_body_Inr:
  "align_body al s m = Inr s' \<Longrightarrow>
   \<exists>new. s' = s\<lparr>molecules := molecules s @ new\<rparr> \<and> length new = (if embeds al m then 1 else 0)"
  by (cases "al m") (auto simp: align_body_def embeds_def Let_def split: if_splits)

lemma align_loop_None:
  "align_loop al s ms = (s', None) \<Longrightarrow>
   \<exists>new. s' = s\<lparr>molecules := molecules s @ new\<rparr> \<and> length new = length (filter (embeds al) ms)"
proof (induction ms arbitrary: s)
  case Nil
  then show ?case by simp
next
  case (Cons m ms)
  from Cons.prems obtain s1 where b: "align_body al s m = Inr s1" and l: "align_loop al s1 ms = (s', None)"
    by (auto split: sum.splits)
  from align_body_Inr [OF b] obtain n1 where
    s1: "s1 = s\<lparr>molecules := molecules s @ n1\<rparr>" and n1: "length n1 = (if embeds al m then 1 else 0)" by blast
  from Cons.IH [OF l] obtain n2 where
    s': "s' = s1\<lparr>molecules := molecules s1 @ n2\<rparr>" and n2: "length n2 = length (filter (embeds al) ms)" by blast
  have "s' = s\<lparr>molecules := molecules s @ (n1 @ n2)\<rparr>" using s1 s' by simp
  moreover have "length (n1 @ n2) = length (filter (embeds al) (m # ms))" using n1 n2 by simp
  ultimately show ?case by blast
qed

lemma from_bioactivity_data_None:
  assumes "from_bioactivity_data parses sim al s smiles act = (s', None)"
  shows "\<exists>labels new. act = Rank1 labels \<and> length smiles = length labels
           \<and> s' = s\<lparr>n_actives := sum_list labels,
                    n_inactives := int (length labels) - sum_list labels,
                    bioactivities := Some labels,
                    n_molecules := (if scoring_metric s = Similarity then length labels
                                    else n_molecules s + length labels),
                    molecules := molecules s @ new\<rparr>
           \<and> length new = (if scoring_metric s = Similarity then length labels
                            else length (filter (embeds al) (map molecule_of smiles)))"
proof -
  from assms obtain labels where act: "act = Rank1 labels"
    by (cases act) (simp_all add: from_bioactivity_data_def)
  from assms act have len: "length smiles = length labels"
    by (auto simp: from_bioactivity_data_def split: if_splits)
  define s1 where "s1 = s\<lparr>n_actives := sum_list labels,
                       n_inactives := int (length labels) - sum_list labels,
                       bioactivities := Some labels\<rparr>"
  from assms act len obtain ms where bm: "build_molecules parses smiles = Inr ms"
    by (auto simp: from_bioactivity_data_def Let_def split: sum.splits)
  then have ms: "ms = map molecule_of smiles" by (rule build_molecules_Inr)
  show ?thesis
  proof (cases "scoring_metric s")
    case Similarity
    with assms act len bm have "s' = fingerprint_similarity sim s1 ms"
      by (simp add: from_bioactivity_data_def Let_def s1_def)
    then have "s' = s\<lparr>n_actives := sum_list labels,
                    n_inactives := int (length labels) - sum_list labels,
                    bioactivities := Some labels,
                    n_molecules := length labels,
                    molecules := molecules s @ map (\<lambda>m. \<lparr>score = sim m, ident = mol_name m, mol = Mol m\<rparr>) ms\<rparr>"
      by (simp add: fingerprint_similarity_eq s1_def ms len)
    moreover have "length (map (\<lambda>m. \<lparr>score = sim m, ident = mol_name m, mol = Mol m\<rparr>) ms) = length labels"
      by (simp add: ms len)
    ultimately show ?thesis using act len Similarity by auto
  next
    case SSD
    with assms act len bm have "align_loop al (s1\<lparr>n_molecules := n_molecules s1 + length ms\<rparr>) ms = (s', None)"
      by (simp add: from_bioactivity_data_def Let_def s1_def align_molecules_def)
    from align_loop_None [OF this] obtain new where
      s': "s' = (s1\<lparr>n_molecules := n_molecules s1 + length ms\<rparr>)\<lparr>molecules := molecules s1 @ new\<rparr>"
      and new: "length new = length (filter (embeds al) ms)" by auto
    from s' have "s' = s\<lparr>n_actives := sum_list labels,
                    n_inactives := int (length labels) - sum_list labels,
                    bioactivities := Some labels,
                    n_molecules := n_molecules s + length labels,
                    molecules := molecules s @ new\<rparr>"
      by (simp add: s1_def ms len)
    with new act len SSD show ?thesis by (auto simp: ms)
  qed
qed

lemma from_bioactivity_data_Similarity:
  assumes "from_bioactivity_data parses sim al s smiles act = (s', None)"
    and sm: "scoring_metric s = Similarity"
  shows "molecules s' = molecules s @ map (fingerprint_record sim) smiles"
proof -
  from assms(1) obtain labels where act: "act = Rank1 labels"
    by (cases act) (simp_all add: from_bioactivity_data_def)
  from assms(1) act have len: "length smiles = length labels"
    by (auto simp: from_bioactivity_data_def split: if_splits)
  from assms(1) act len obtain ms where bm: "build_molecules parses smiles = Inr ms"
    by (auto simp: from_bioactivity_data_def Let_def split: sum.splits)
  then have ms: "ms = map molecule_of smiles" by (rule build_molecules_Inr)
  from assms(1) act len bm sm
  have "s' = fingerprint_similarity sim
               (s\<lparr>n_actives := sum_list labels,
                  n_inactives := int (length labels) - sum_list labels,
                  bioactivities := Some labels\<rparr>) ms"
    by (simp add: from_bioactivity_data_def Let_def)
  then show ?thesis
    by (simp add: fingerprint_similarity_eq ms fingerprint_record_def molecule_of_def comp_def)
qed

lemma binary_count_actives: "binary ls \<Longrightarrow> sum_list ls = int (count_actives ls)"
proof (induction ls)
  case Nil
  show ?case by (simp add: count_actives_def)
next
  case (Cons l ls)
  then show ?case by (auto simp: binary_def count_actives_def)
qed

text \<open>
  C10, as stated: after a second call the store should no longer have the length of the
  label array. On a session with the geometric strategy, a first call stores the record
  of a. A second call with the molecules c and b and the labels 0 and 1 skips c, whose
  embedding raises, and appends the record of b: the store holds two records, as many as
  there are labels, while its first record belongs to a molecule of the first call.
\<close>

theorem second_call_same_length:
  "from_bioactivity_data (\<lambda>smi. True) example_similarity example_aligner (fresh SSD)
     [(''a'', ''CCO'')] (Rank1 [1]) = (first_ssd_session, None)
   \<and> from_bioactivity_data (\<lambda>smi. True) example_similarity example_aligner first_ssd_session
       [(''c'', ''CCC''), (''b'', ''CCN'')] (Rank1 [0, 1]) = (second_ssd_session, None)
   \<and> bioactivities second_ssd_session = Some [0, 1]
   \<and> map ident (molecules second_ssd_session) = [''a'', ''b'']
   \<and> length (molecules second_ssd_session) = length [0, 1 :: int]"
  by code_simp

text \<open>
  C10, amended: after two successful calls of \<open>from_bioactivity_data\<close> on the same
  session, the second with labels that are zeros and ones, the label array and the
  counters of actives and inactives are those of the second call alone, while the store
  keeps the records of the first call in front of the records of the second. The
  fingerprint path resets \<open>n_molecules\<close> to the length of the second call and appends one
  record per molecule, so that record (length of the first call + j) belongs to molecule
  j of the second call; the geometric path adds the length of the second call to
  \<open>n_molecules\<close> and appends one record per molecule that it does not skip. The store
  has the length of the label array only when the first call was empty (fingerprint
  path), or when the second call skips exactly as many molecules as the first call
  stored (geometric path); whenever the first call stored a record, record 0 of the
  store is a record of the first call.
\<close>

theorem from_bioactivity_data_twice:
  assumes first: "from_bioactivity_data parses sim al (fresh metric) smiles1 act1 = (s1, None)"
      and second: "from_bioactivity_data parses sim al s1 smiles2 (Rank1 labels2) = (s2, None)"
      and bin: "binary labels2"
  shows "bioactivities s2 = Some labels2
         \<and> n_actives s2 = int (count_actives labels2)
         \<and> n_inactives s2 = int (length labels2) - int (count_actives labels2)
         \<and> take (length (molecules s1)) (molecules s2) = molecules s1
         \<and> (molecules s1 \<noteq> [] \<longrightarrow> molecules s2 ! 0 = molecules s1 ! 0)
         \<and> (metric = Similarity \<longrightarrow>
              n_molecules s2 = length labels2
              \<and> molecules s1 = map (fingerprint_record sim) smiles1
              \<and> molecules s2 = molecules s1 @ map (fingerprint_record sim) smiles2
              \<and> (\<forall>j < length smiles2.
                    ident (molecules s2 ! (length smiles1 + j)) = fst (smiles2 ! j)))
         \<and> (metric = SSD \<longrightarrow>
              n_molecules s2 = length smiles1 + length labels2
              \<and> length (molecules s2) =
                  length (molecules s1) + length (filter (embeds al) (map molecule_of smiles2)))
         \<and> ((length (molecules s2) = length labels2) =
              (if metric = Similarity then smiles1 = []
               else length (molecules s1) =
                      length (filter (\<lambda>m. \<not> embeds al m) (map molecule_of smiles2))))"
proof -
  from from_bioactivity_data_None [OF first] obtain labels1 new1 where
    l1: "length smiles1 = length labels1"
    and s1: "s1 = (fresh metric)\<lparr>n_actives := sum_list labels1,
                    n_inactives := int (length labels1) - sum_list labels1,
                    bioactivities := Some labels1,
                    n_molecules := (if scoring_metric (fresh metric) = Similarity then length labels1
                                    else n_molecules (fresh metric) + length labels1),
                    molecules := molecules (fresh metric) @ new1\<rparr>"
    and n1: "length new1 = (if scoring_metric (fresh metric) = Similarity then length labels1
                            else length (filter (embeds al) (map molecule_of smiles1)))"
    by blast
  from from_bioactivity_data_None [OF second] obtain new2 where
    l2: "length smiles2 = length labels2"
    and s2: "s2 = s1\<lparr>n_actives := sum_list labels2,
                    n_inactives := int (length labels2) - sum_list labels2,
                    bioactivities := Some labels2,
                    n_molecules := (if scoring_metric s1 = Similarity then length labels2
                                    else n_molecules s1 + length labels2),
                    molecules := molecules s1 @ new2\<rparr>"
    and n2: "length new2 = (if scoring_metric s1 = Similarity then length labels2
                            else length (filter (embeds al) (map molecule_of smiles2)))"
    by auto
  have m1: "scoring_metric s1 = metric" "molecules s1 = new1"
    and nm1: "n_molecules s1 = length labels1"
    using s1 by (simp_all add: fresh_def)
  have fm: "scoring_metric (fresh metric) = metric" "molecules (fresh metric) = []"
    by (simp_all add: fresh_def)
  note cnt = binary_count_actives [OF bin]
  have c1: "bioactivities s2 = Some labels2" "n_actives s2 = int (count_actives labels2)"
    "n_inactives s2 = int (length labels2) - int (count_actives labels2)"
    "take (length (molecules s1)) (molecules s2) = molecules s1"
    using s2 cnt by simp_all
  have c0: "molecules s1 \<noteq> [] \<longrightarrow> molecules s2 ! 0 = molecules s1 ! 0"
    using s2 by (simp add: nth_append)
  have c2: "metric = Similarity \<longrightarrow>
              n_molecules s2 = length labels2
              \<and> molecules s1 = map (fingerprint_record sim) smiles1
              \<and> molecules s2 = molecules s1 @ map (fingerprint_record sim) smiles2
              \<and> (\<forall>j < length smiles2.
                    ident (molecules s2 ! (length smiles1 + j)) = fst (smiles2 ! j))"
  proof
    assume sim: "metric = Similarity"
    have a1: "molecules s1 = map (fingerprint_record sim) smiles1"
      using from_bioactivity_data_Similarity [OF first] fm sim by simp
    have a2: "molecules s2 = molecules s1 @ map (fingerprint_record sim) smiles2"
      using from_bioactivity_data_Similarity [OF second] m1 sim by simp
    have a3: "n_molecules s2 = length labels2" using s2 m1 sim by simp
    have a4: "\<forall>j < length smiles2.
                ident (molecules s2 ! (length smiles1 + j)) = fst (smiles2 ! j)"
      unfolding a2 a1 by (simp add: nth_append fingerprint_record_def)
    from a1 a2 a3 a4 show "n_molecules s2 = length labels2
              \<and> molecules s1 = map (fingerprint_record sim) smiles1
              \<and> molecules s2 = molecules s1 @ map (fingerprint_record sim) smiles2
              \<and> (\<forall>j < length smiles2.
                    ident (molecules s2 ! (length smiles1 + j)) = fst (smiles2 ! j))"
      by blast
  qed
  have c3: "metric = SSD \<longrightarrow>
              n_molecules s2 = length smiles1 + length labels2
              \<and> length (molecules s2) =
                  length (molecules s1) + length (filter (embeds al) (map molecule_of smiles2))"
    using s2 m1 nm1 n2 l1 by simp
  have split: "length labels2 = length (filter (embeds al) (map molecule_of smiles2))
                 + length (filter (\<lambda>m. \<not> embeds al m) (map molecule_of smiles2))"
    using sum_length_filter_compl [of "embeds al" "map molecule_of smiles2"] l2 by simp
  have c4: "(length (molecules s2) = length labels2) =
              (if metric = Similarity then smiles1 = []
               else length (molecules s1) =
                      length (filter (\<lambda>m. \<not> embeds al m) (map molecule_of smiles2)))"
  proof (cases metric)
    case Similarity
    then have "length (molecules s2) = length smiles1 + length labels2"
      using s2 m1 n1 n2 l1 fm by simp
    with Similarity show ?thesis by simp
  next
    case SSD
    then have "length (molecules s2) =
                 length (molecules s1) + length (filter (embeds al) (map molecule_of smiles2))"
      using s2 m1 n2 by simp
    with SSD split show ?thesis by simp
  qed
  from c1 c0 c2 c3 c4 show ?thesis by (intro conjI)
qed

theorem from_bioactivity_data_twice_witness:
  "from_bioactivity_data (\<lambda>smi. True) example_similarity example_aligner (fresh Similarity)
     [(''a'', ''CCO'')] (Rank1 [1]) = (one_active_session, None)
   \<and> from_bioactivity_data (\<lambda>smi. True) example_similarity example_aligner one_active_session
       [(''b'', ''CCN''), (''d'', ''C'')] (Rank1 [0, 1]) = (twice_session, None)
   \<and> binary [0, 1]
   \<and> molecules one_active_session \<noteq> []
   \<and> bioactivities twice_session = Some [0, 1]
   \<and> n_actives twice_session = 1 \<and> n_inactives twice_session = 1
   \<and> n_molecules twice_session = 2
   \<and> length (molecules twice_session) = 3
   \<and> molecules twice_session ! 0 = molecules one_active_session ! 0
   \<and> ident (molecules twice_session ! (length [(''a'', ''CCO'')] + 1)) = ''d''
   \<and> length (molecules twice_session) \<noteq> length [0, 1 :: int]
   \<and> from_bioactivity_data (\<lambda>smi. True) example_similarity example_aligner (fresh SSD)
       [(''a'', ''CCO'')] (Rank1 [1]) = (first_ssd_session, None)
   \<and> from_bioactivity_data (\<lambda>smi. True) example_similarity example_aligner first_ssd_session
       [(''c'', ''CCC''), (''b'', ''CCN'')] (Rank1 [0, 1]) = (second_ssd_session, None)
   \<and> bioactivities second_ssd_session = Some [0, 1]
   \<and> n_molecules second_ssd_session = 3
   \<and> length (molecules second_ssd_session) = 2
   \<and> molecules second_ssd_session ! 0 = molecules first_ssd_session ! 0"
proof -
  have h1: "from_bioactivity_data (\<lambda>smi. True) example_similarity example_aligner (fresh Similarity)
     [(''a'', ''CCO'')] (Rank1 [1]) = (one_active_session, None)" by code_simp
  have h2: "from_bioactivity_data (\<lambda>smi. True) example_similarity example_aligner one_active_session
       [(''b'', ''CCN''), (''d'', ''C'')] (Rank1 [0, 1]) = (twice_session, None)" by code_simp
  have h3: "binary [0, 1]" by code_simp
  have h4: "molecules one_active_session \<noteq> []" by code_simp
  have h5: "count_actives [0, 1] = 1" by code_simp
  have k1: "from_bioactivity_data (\<lambda>smi. True) example_similarity example_aligner (fresh SSD)
       [(''a'', ''CCO'')] (Rank1 [1]) = (first_ssd_session, None)" by code_simp
  have k2: "from_bioactivity_data (\<lambda>smi. True) example_similarity example_aligner first_ssd_session
       [(''c'', ''CCC''), (''b'', ''CCN'')] (Rank1 [0, 1]) = (second_ssd_session, None)" by code_simp
  have k4: "molecules first_ssd_session \<noteq> []" by code_simp
  have k5: "length (molecules first_ssd_session) = 1" by code_simp
  have k6: "length (filter (embeds example_aligner)
              (map molecule_of [(''c'', ''CCC''), (''b'', ''CCN'')])) = 1" by code_simp
  note t = from_bioactivity_data_twice [OF h1 h2 h3]
  note u = from_bioactivity_data_twice [OF k1 k2 h3]
  from t have c1: "bioactivities twice_session = Some [0, 1]" by (rule conjunct1)
  from t h5 have c2: "n_actives twice_session = 1 \<and> n_inactives twice_session = 1" by simp
  from t have c3: "n_molecules twice_session = 2" by simp
  from t have e: "(length (molecules twice_session) = length [0, 1 :: int]) =
                    (if Similarity = Similarity then [(''a'', ''CCO'')] = [] else
                       length (molecules one_active_session) =
                       length (filter (\<lambda>m. \<not> embeds example_aligner m)
                                 (map molecule_of [(''b'', ''CCN''), (''d'', ''C'')])))"
    by blast
  then have c4: "length (molecules twice_session) \<noteq> length [0, 1 :: int]" by simp
  from t have m: "molecules twice_session =
                    molecules one_active_session @
                    map (fingerprint_record example_similarity) [(''b'', ''CCN''), (''d'', ''C'')]"
    and m0: "molecules one_active_session =
               map (fingerprint_record example_similarity) [(''a'', ''CCO'')]"
    by blast+
  from m m0 have c5: "length (molecules twice_session) = 3" by simp
  from t h4 have c6: "molecules twice_session ! 0 = molecules one_active_session ! 0" by blast
  from t have "\<forall>j < length [(''b'', ''CCN''), (''d'', ''C'')].
                 ident (molecules twice_session ! (length [(''a'', ''CCO'')] + j)) =
                 fst ([(''b'', ''CCN''), (''d'', ''C'')] ! j)"
    by blast
  then have "ident (molecules twice_session ! (length [(''a'', ''CCO'')] + 1)) =
             fst ([(''b'', ''CCN''), (''d'', ''C'')] ! 1)"
    by simp
  then have c7: "ident (molecules twice_session ! (length [(''a'', ''CCO'')] + 1)) = ''d''"
    by simp
  from u have d1: "bioactivities second_ssd_session = Some [0, 1]" by (rule conjunct1)
  from u have d2: "n_molecules second_ssd_session = 3" by simp
  from u have "length (molecules second_ssd_session) =
                 length (molecules first_ssd_session) +
                 length (filter (embeds example_aligner)
                           (map molecule_of [(''c'', ''CCC''), (''b'', ''CCN'')]))"
    by simp
  with k5 k6 have d3: "length (molecules second_ssd_session) = 2" by simp
  from u k4 have d4: "molecules second_ssd_session ! 0 = molecules first_ssd_session ! 0" by blast
  from h1 h2 h3 h4 c1 c2 c3 c5 c6 c7 c4 k1 k2 d1 d2 d3 d4 show ?thesis by (intro conjI) simp_all
qed

section \<open>The order of the sweep\<close>


lemma is_argsort_mset:
  assumes "is_argsort argsort"
  shows "mset (argsort xs) = mset [0..<length xs]"
proof -
  from assms have "sort (argsort xs) = [0..<length xs]" by (simp add: is_argsort_def)
  then have "mset (sort (argsort xs)) = mset [0..<length xs]" by simp
  then show ?thesis by simp
qed

lemma is_argsort_sorted:
  "is_argsort argsort \<Longrightarrow> sorted (map (\<lambda>i. xs ! i) (argsort xs))"
  by (simp add: is_argsort_def)

lemma is_argsort_stable: "is_argsort stable_argsort"
proof -
  have "sort (stable_argsort xs) = [0..<length xs]" for xs
    unfolding stable_argsort_def by (rule properties_for_sort) simp_all
  moreover have "sorted (map (\<lambda>i. xs ! i) (stable_argsort xs))" for xs
    unfolding stable_argsort_def by (rule sorted_sort_key)
  ultimately show ?thesis by (simp add: is_argsort_def)
qed

lemma map_argsort:
  assumes arg: "is_argsort argsort"
  shows "map (\<lambda>i. xs ! i) (argsort xs) = np_sort xs"
proof -
  have "mset (map (\<lambda>i. xs ! i) (argsort xs)) = mset (map (\<lambda>i. xs ! i) [0..<length xs])"
    by (metis mset_map is_argsort_mset [OF arg])
  then have ms: "mset (map (\<lambda>i. xs ! i) (argsort xs)) = mset xs" by (simp add: map_nth)
  have "sort xs = map (\<lambda>i. xs ! i) (argsort xs)"
    by (rule properties_for_sort [OF ms is_argsort_sorted [OF arg]])
  then show ?thesis by (simp add: np_sort_def)
qed

lemma mset_sorted_indices:
  "is_argsort argsort \<Longrightarrow> mset (sorted_indices argsort s) = mset [0..<length (molecules s)]"
  by (simp add: sorted_indices_def is_argsort_mset)

lemma set_sorted_indices:
  assumes arg: "is_argsort argsort"
  shows "set (sorted_indices argsort s) = {0..<length (molecules s)}"
proof -
  have "set (sorted_indices argsort s) = set [0..<length (molecules s)]"
    using mset_sorted_indices [OF arg, of s] by (metis set_mset_mset)
  then show ?thesis by simp
qed

lemma length_sorted_indices:
  assumes arg: "is_argsort argsort"
  shows "length (sorted_indices argsort s) = length (molecules s)"
  using mset_sorted_indices [OF arg, of s] by (metis size_mset length_upt diff_zero)

lemma sorted_scores_indices:
  assumes arg: "is_argsort argsort"
  shows "sorted_scores s = map (\<lambda>i. map score (molecules s) ! i) (sorted_indices argsort s)"
  by (simp add: sorted_scores_def sorted_indices_def rev_map map_argsort [OF arg, symmetric])

lemma sorted_labels_Some:
  assumes arg: "is_argsort argsort"
    and "bioactivities s = Some ls" and "length (molecules s) \<le> length ls"
  shows "sorted_labels argsort s = Inr (map (\<lambda>i. ls ! i) (sorted_indices argsort s))"
proof -
  have "list_all (\<lambda>i. i < length ls) (sorted_indices argsort s)"
    using assms(3) by (auto simp: list_all_iff set_sorted_indices [OF arg])
  then show ?thesis using assms(2) by (simp add: sorted_labels_def take_indices_def)
qed

lemma mset_sorted_labels:
  assumes arg: "is_argsort argsort" and len: "length (molecules s) \<le> length ls"
  shows "mset (map (\<lambda>i. ls ! i) (sorted_indices argsort s)) = mset (take (length (molecules s)) ls)"
proof -
  have "mset (map (\<lambda>i. ls ! i) (sorted_indices argsort s)) = mset (map (\<lambda>i. ls ! i) [0..<length (molecules s)])"
    by (metis mset_map mset_sorted_indices [OF arg])
  also have "map (\<lambda>i. ls ! i) [0..<length (molecules s)] = take (length (molecules s)) ls"
    using len by (intro nth_equalityI) simp_all
  finally show ?thesis .
qed

lemma set_sorted_labels:
  assumes arg: "is_argsort argsort" and len: "length (molecules s) \<le> length ls"
  shows "set (map (\<lambda>i. ls ! i) (sorted_indices argsort s)) \<subseteq> set ls"
proof -
  have "set (map (\<lambda>i. ls ! i) (sorted_indices argsort s)) = set (take (length (molecules s)) ls)"
    using mset_sorted_labels [OF arg len] by (metis set_mset_mset)
  then show ?thesis by (simp add: set_take_subset)
qed

text \<open>Label arrays of zeros and ones.\<close>

lemma binary_sum_list: "binary ls \<Longrightarrow> sum_list ls = int (length (filter (\<lambda>l. l = 1) ls))"
  by (induction ls) (auto simp: binary_def)

lemma binary_no_inactive:
  assumes "binary ls" and "int (length ls) - sum_list ls = 0"
  shows "\<forall>l \<in> set ls. l = 1"
proof -
  from assms have "length (filter (\<lambda>l. l = 1) ls) = length ls"
    by (simp add: binary_sum_list)
  then show ?thesis by (metis (mono_tags, lifting) filter_id_conv length_filter_less less_irrefl_nat)
qed

lemma binary_no_active:
  assumes "binary ls" and "sum_list ls = 0"
  shows "\<forall>l \<in> set ls. l \<noteq> 1"
proof -
  from assms have "filter (\<lambda>l. l = 1) ls = []" by (simp add: binary_sum_list)
  then show ?thesis by (simp add: filter_empty_conv)
qed

section \<open>Label sets without actives or without inactives\<close>

lemma auc_loop_append: "auc_loop (xs @ ys) st = auc_loop ys (auc_loop xs st)"
  by (simp add: auc_loop_def)

lemma auc_loop_Cons: "auc_loop (z # zs) st = auc_loop zs (auc_step st z)"
  by (simp add: auc_loop_def)

lemma auc_loop_Nil: "auc_loop [] st = st"
  by (simp add: auc_loop_def)

lemma auc_only_actives:
  "\<forall>z \<in> set zs. snd z = 1 \<Longrightarrow> false_pos st = false_pos_prev st \<Longrightarrow>
   false_pos (auc_loop zs st) = false_pos st
   \<and> false_pos_prev (auc_loop zs st) = false_pos st
   \<and> area (auc_loop zs st) = area st"
proof (induction zs arbitrary: st)
  case Nil
  then show ?case by (simp add: auc_loop_Nil)
next
  case (Cons z zs)
  from Cons.prems have z: "snd z = 1" and rest: "\<forall>z \<in> set zs. snd z = 1" by simp_all
  have st': "false_pos (auc_step st z) = false_pos st"
    "false_pos_prev (auc_step st z) = false_pos st"
    "area (auc_step st z) = area st"
    using z Cons.prems(2) by (simp_all add: auc_step_def trapezoid_area_def Let_def)
  then have "false_pos (auc_step st z) = false_pos_prev (auc_step st z)" by simp
  from Cons.IH [OF rest this] st' show ?case by (simp add: auc_loop_Cons)
qed

lemma auc_only_inactives:
  "\<forall>z \<in> set zs. snd z \<noteq> 1 \<Longrightarrow> true_pos st = 0 \<Longrightarrow> true_pos_prev st = 0 \<Longrightarrow>
   true_pos (auc_loop zs st) = 0
   \<and> true_pos_prev (auc_loop zs st) = 0
   \<and> area (auc_loop zs st) = area st"
proof (induction zs arbitrary: st)
  case Nil
  then show ?case by (simp add: auc_loop_Nil)
next
  case (Cons z zs)
  from Cons.prems have z: "snd z \<noteq> 1" and rest: "\<forall>z \<in> set zs. snd z \<noteq> 1" by simp_all
  have st': "true_pos (auc_step st z) = 0"
    "true_pos_prev (auc_step st z) = 0"
    "area (auc_step st z) = area st"
    using z Cons.prems(2,3) by (simp_all add: auc_step_def trapezoid_area_def Let_def)
  from Cons.IH [OF rest st'(1) st'(2)] st' show ?case by (simp add: auc_loop_Cons)
qed

lemma roc_counts:
  "roc_false_pos (foldl (roc_step N P) st zs) =
     roc_false_pos st + int (length (filter (\<lambda>z. snd z \<noteq> 1) zs))
   \<and> roc_true_pos (foldl (roc_step N P) st zs) =
     roc_true_pos st + int (length (filter (\<lambda>z. snd z = 1) zs))"
  by (induction zs arbitrary: st) (simp_all add: roc_step_def Let_def)

lemma set_zip_snd: "z \<in> set (zip xs ys) \<Longrightarrow> snd z \<in> set ys"
  by (metis in_set_zipE prod.collapse)

text \<open>
  C5, as stated: with no inactive (or no active) molecule the ROC computation should
  fail. In \<open>one_active_session\<close> there is no inactive, and the ROC data are returned
  with \<open>nan\<close> as every x coordinate (the session has a single record, so that the
  choice of the argsort plays no part).
\<close>

theorem degenerate_roc_no_error:
  "is_argsort stable_argsort
   \<and> populated one_active_session \<and> n_inactives one_active_session = 0
   \<and> ROC_plot stable_argsort one_active_session = Inr ([NaN, NaN], [Fin 0, Fin 1])"
proof -
  have "populated one_active_session \<and> n_inactives one_active_session = 0
        \<and> ROC_plot stable_argsort one_active_session = Inr ([NaN, NaN], [Fin 0, Fin 1])"
    by code_simp
  with is_argsort_stable show ?thesis by (rule conjI)
qed

text \<open>
  C5, amended (for every argsort that NumPy may implement): in a populated session
  without inactives or without actives, \<open>AUC\<close>
  fails, with the AssertionError of its final range check (the area is 0 and the
  division by \<open>n_negatives * n_positives = 0\<close> gives \<open>nan\<close>), and the ROC computation
  does not fail: it returns its two lists, whose last x coordinate is \<open>nan\<close> when there
  is no inactive and whose last y coordinate is \<open>nan\<close> when there is no active.
\<close>

theorem degenerate_labels:
  assumes arg: "is_argsort argsort"
    and pop: "populated s" and deg: "n_inactives s = 0 \<or> n_actives s = 0"
  shows "AUC argsort s = Inl AssertionError
         \<and> (\<exists>xs ys. ROC_plot argsort s = Inr (xs, ys)
              \<and> (n_inactives s = 0 \<longrightarrow> last xs = NaN)
              \<and> (n_actives s = 0 \<longrightarrow> last ys = NaN))"
proof -
  from pop obtain ls where b: "bioactivities s = Some ls" and bin: "binary ls"
    and na: "n_actives s = sum_list ls" and ni: "n_inactives s = int (length ls) - sum_list ls"
    and len: "length (molecules s) \<le> length ls"
    by (auto simp: populated_def split: option.splits)
  define labels where "labels = map (\<lambda>i. ls ! i) (sorted_indices argsort s)"
  have sl: "sorted_labels argsort s = Inr labels"
    unfolding labels_def by (rule sorted_labels_Some [OF arg b len])
  have sub: "set labels \<subseteq> set ls"
    unfolding labels_def by (rule set_sorted_labels [OF arg len])
  define zs where "zs = zip (sorted_scores s) labels"
  have zsub: "\<And>z. z \<in> set zs \<Longrightarrow> snd z \<in> set ls"
    using sub set_zip_snd unfolding zs_def by blast
  have prod0: "n_inactives s * n_actives s = 0" using deg by auto
  have area0: "auc_area s labels = 0"
  proof (cases "n_inactives s = 0")
    case True
    with bin ni have "\<forall>l \<in> set ls. l = 1" by (simp add: binary_no_inactive)
    with zsub have all1: "\<forall>z \<in> set zs. snd z = 1" by blast
    have "false_pos auc_init = false_pos_prev auc_init" by (simp add: auc_init_def)
    from auc_only_actives [OF all1 this]
    have "false_pos_prev (auc_loop zs auc_init) = 0" "area (auc_loop zs auc_init) = 0"
      by (simp_all add: auc_init_def)
    with True show ?thesis
      by (simp add: auc_area_def zs_def [symmetric] Let_def trapezoid_area_def)
  next
    case False
    with deg have n0: "n_actives s = 0" by simp
    with bin na have "\<forall>l \<in> set ls. l \<noteq> 1" by (simp add: binary_no_active)
    with zsub have all0: "\<forall>z \<in> set zs. snd z \<noteq> 1" by blast
    have "true_pos auc_init = 0" "true_pos_prev auc_init = 0" by (simp_all add: auc_init_def)
    from auc_only_inactives [OF all0 this]
    have "true_pos_prev (auc_loop zs auc_init) = 0" "area (auc_loop zs auc_init) = 0"
      by (simp_all add: auc_init_def)
    with n0 show ?thesis
      by (simp add: auc_area_def zs_def [symmetric] Let_def trapezoid_area_def)
  qed
  have auc: "AUC argsort s = Inl AssertionError"
    using sl area0 prod0 by (simp add: AUC_def np_div_def)
  define st where "st = foldl (roc_step (n_inactives s) (n_actives s)) roc_init zs"
  define xs where "xs = x st @ [np_div (of_int (roc_false_pos st)) (of_int (n_inactives s))]"
  define ys where "ys = y st @ [np_div (of_int (roc_true_pos st)) (of_int (n_actives s))]"
  have roc: "ROC_plot argsort s = Inr (xs, ys)"
    using sl by (simp add: ROC_plot_def Let_def xs_def ys_def st_def zs_def)
  have rx: "n_inactives s = 0 \<longrightarrow> last xs = NaN"
  proof
    assume z: "n_inactives s = 0"
    with bin ni have "\<forall>l \<in> set ls. l = 1" by (simp add: binary_no_inactive)
    with zsub have "filter (\<lambda>z. snd z \<noteq> 1) zs = []" by (auto simp: filter_empty_conv)
    with roc_counts [of "n_inactives s" "n_actives s" roc_init zs]
    have "roc_false_pos st = 0" by (simp add: st_def roc_init_def)
    with z show "last xs = NaN" by (simp add: xs_def np_div_def)
  qed
  have ry: "n_actives s = 0 \<longrightarrow> last ys = NaN"
  proof
    assume z: "n_actives s = 0"
    with bin na have "\<forall>l \<in> set ls. l \<noteq> 1" by (simp add: binary_no_active)
    with zsub have "filter (\<lambda>z. snd z = 1) zs = []" by (auto simp: filter_empty_conv)
    with roc_counts [of "n_inactives s" "n_actives s" roc_init zs]
    have "roc_true_pos st = 0" by (simp add: st_def roc_init_def)
    with z show "last ys = NaN" by (simp add: ys_def np_div_def)
  qed
  from auc roc rx ry show ?thesis by blast
qed

theorem degenerate_labels_witness:
  "is_argsort stable_argsort
   \<and> populated one_active_session \<and> n_inactives one_active_session = 0
   \<and> AUC stable_argsort one_active_session = Inl AssertionError
   \<and> (\<exists>xs ys. ROC_plot stable_argsort one_active_session = Inr (xs, ys) \<and> last xs = NaN)"
proof -
  have h1: "populated one_active_session" by code_simp
  have h2: "n_inactives one_active_session = 0" by code_simp
  from h2 have h3: "n_inactives one_active_session = 0 \<or> n_actives one_active_session = 0" by simp
  from degenerate_labels [OF is_argsort_stable h1 h3] is_argsort_stable h1 h2
  show ?thesis by blast
qed

section \<open>Ties in the descending order\<close>







section \<open>\<open>enrichment_factor\<close>\<close>

text \<open>
  The two lists that \<open>_enrichment_data\<close> returns, in closed form: with n sorted labels
  there are n + 1 entries; entry k + 1 holds the screened fraction k / n and the fraction
  of actives among the first k + 1 sorted labels.
\<close>

lemma enumerate_snoc: "List.enumerate k (as @ [a]) = List.enumerate k as @ [(k + length as, a)]"
  by (simp add: enumerate_append_eq)

lemma enrichment_foldl:
  "foldl (enrichment_step A n) enrichment_init (List.enumerate 0 ls) =
     \<lparr>actives_counter = int (count_actives ls),
      percentage_actives_found =
        Fin 0 # map (\<lambda>k. np_div (of_int (int (count_actives (take (Suc k) ls)))) (of_int A)) [0..<length ls],
      screened_percentage = 0 # map (\<lambda>k. of_nat k / of_nat n) [0..<length ls]\<rparr>"
proof (induction ls rule: rev_induct)
  case Nil
  then show ?case by (simp add: enrichment_init_def count_actives_def)
next
  case (snoc l ls)
  let ?F = "\<lambda>xs k. np_div (of_int (int (count_actives (take (Suc k) xs)))) (of_int A)"
  have "map (?F (ls @ [l])) [0..<length ls] = map (?F ls) [0..<length ls]"
    by (rule map_cong) simp_all
  then have m: "map (?F (ls @ [l])) [0..<length (ls @ [l])] =
                map (?F ls) [0..<length ls] @ [np_div (of_int (int (count_actives (ls @ [l])))) (of_int A)]"
    by simp
  have c: "int (count_actives (ls @ [l])) = (if l = 1 then int (count_actives ls) + 1 else int (count_actives ls))"
    by (simp add: count_actives_def)
  have s: "map (\<lambda>k. (of_nat k :: rat) / of_nat n) [0..<length (ls @ [l])] =
           map (\<lambda>k. of_nat k / of_nat n) [0..<length ls] @ [of_nat (length ls) / of_nat n]"
    by simp
  have "foldl (enrichment_step A n) enrichment_init (List.enumerate 0 (ls @ [l])) =
        enrichment_step A n (foldl (enrichment_step A n) enrichment_init (List.enumerate 0 ls)) (length ls, l)"
    by (simp add: enumerate_snoc)
  also have "\<dots> = \<lparr>actives_counter = int (count_actives (ls @ [l])),
      percentage_actives_found =
        Fin 0 # (map (?F ls) [0..<length ls] @ [np_div (of_int (int (count_actives (ls @ [l])))) (of_int A)]),
      screened_percentage = 0 # (map (\<lambda>k. of_nat k / of_nat n) [0..<length ls] @ [of_nat (length ls) / of_nat n])\<rparr>"
    unfolding snoc.IH c by (simp add: enrichment_step_def)
  finally show ?case unfolding m s .
qed

lemma enrichment_data_Inr:
  assumes "sorted_labels argsort s = Inr labels"
  shows "enrichment_data argsort s =
     Inr (0 # map (\<lambda>k. of_nat k / of_nat (length labels)) [0..<length labels],
          Fin 0 # map (\<lambda>k. np_div (of_int (int (count_actives (take (Suc k) labels))))
                                 (of_int (n_actives s))) [0..<length labels])"
  using assms by (simp add: enrichment_data_def enrichment_foldl)

lemma sorted_screened:
  "sorted (0 # map (\<lambda>k. (of_nat k :: rat) / of_nat n) [0..<m])"
proof -
  have "sorted (map (\<lambda>k. (of_nat k :: rat) / of_nat n) [0..<m])"
    by (auto simp: sorted_map sorted_wrt_iff_nth_less divide_right_mono)
  then show ?thesis by simp
qed

lemma sorted_le_last: "sorted (vs :: rat list) \<Longrightarrow> a \<in> set vs \<Longrightarrow> a \<le> last vs"
  by (induction vs) auto

lemma last_argsort:
  assumes arg: "is_argsort argsort" and ne: "vs \<noteq> []"
  shows "argsort vs \<noteq> []" and "last (argsort vs) < length vs"
    and "\<forall>i < length vs. vs ! i \<le> vs ! last (argsort vs)"
proof -
  have st: "set (argsort vs) = {0..<length vs}"
    using is_argsort_mset [OF arg, of vs] by (metis set_mset_mset set_upt)
  with ne show n: "argsort vs \<noteq> []" by auto
  from last_in_set [OF n] st show "last (argsort vs) < length vs" by simp
  have srt: "sorted (map (\<lambda>i. vs ! i) (argsort vs))" by (rule is_argsort_sorted [OF arg])
  have lm: "last (map (\<lambda>i. vs ! i) (argsort vs)) = vs ! last (argsort vs)"
    using n by (simp add: last_map)
  show "\<forall>i < length vs. vs ! i \<le> vs ! last (argsort vs)"
  proof (intro allI impI)
    fix i assume "i < length vs"
    with st have "vs ! i \<in> set (map (\<lambda>i. vs ! i) (argsort vs))" by simp
    from sorted_le_last [OF srt this] lm show "vs ! i \<le> vs ! last (argsort vs)" by simp
  qed
qed

lemma last_argsort_screened:
  assumes arg: "is_argsort argsort" and n: "2 \<le> n"
  shows "last (argsort (0 # map (\<lambda>k. (of_nat k :: rat) / of_nat n) [0..<n])) = n"
proof -
  define vs where "vs = 0 # map (\<lambda>k. (of_nat k :: rat) / of_nat n) [0..<n]"
  have ne: "vs \<noteq> []" and len: "length vs = Suc n" by (simp_all add: vs_def)
  define j where "j = last (argsort vs)"
  from last_argsort [OF arg ne] have jl: "j < Suc n" and mx: "\<forall>i < Suc n. vs ! i \<le> vs ! j"
    by (simp_all add: j_def len)
  from n obtain m where m: "n = Suc m" by (cases n) auto
  have top: "vs ! n = of_nat m / of_nat n" using m by (simp add: vs_def nth_append)
  have "j = n"
  proof (rule ccontr)
    assume "j \<noteq> n"
    with jl have jn: "j < n" by simp
    have "vs ! j < vs ! n"
    proof (cases j)
      case 0
      have z: "vs ! 0 = 0" by (simp add: vs_def)
      have "(0::rat) < of_nat m / of_nat n" using n m by simp
      with z top 0 show ?thesis by simp
    next
      case (Suc k)
      with jn have kn: "k < n" and km: "k < m" using m by simp_all
      then have "vs ! j = of_nat k / of_nat n" using Suc by (simp add: vs_def)
      with km n show ?thesis by (simp add: top divide_strict_right_mono)
    qed
    moreover from mx have "vs ! n \<le> vs ! j" by simp
    ultimately show False by simp
  qed
  then show ?thesis by (simp add: j_def vs_def)
qed

lemma count_actives_mset: "mset xs = mset ys \<Longrightarrow> count_actives xs = count_actives ys"
  unfolding count_actives_def by (metis mset_filter size_mset)

text \<open>
  C1: the enrichment data should pair the prefix of length k with the screened fraction
  k/n, ending at 1. For the four molecules of \<open>example_session\<close> the screened fractions
  returned are 0, 0, 1/4, 1/2, 3/4: the prefix of length k is paired with (k - 1)/n, and
  the last fraction is 3/4, whatever order the argsort gives to the two molecules of equal
  score.
\<close>

theorem enrichment_data_off_by_one:
  assumes arg: "is_argsort argsort"
  shows "\<exists>found. enrichment_data argsort example_session =
                   Inr ([0, 0, 1 / 4, 1 / 2, 3 / 4], found) \<and> length found = 5"
proof -
  have b: "bioactivities example_session = Some [1, 0, 1, 0]" by code_simp
  have n: "length (molecules example_session) = 4" by code_simp
  define labels where "labels = map (\<lambda>i. [1, 0, 1, 0 :: int] ! i) (sorted_indices argsort example_session)"
  have sl: "sorted_labels argsort example_session = Inr labels"
    unfolding labels_def by (rule sorted_labels_Some [OF arg b]) (simp add: n)
  have l: "length labels = 4" by (simp add: labels_def length_sorted_indices [OF arg] n)
  have u: "[0..<4] = [0, 1, 2, 3 :: nat]" by (simp add: upt_rec)
  show ?thesis
    unfolding enrichment_data_Inr [OF sl] l u by simp
qed

theorem enrichment_data_off_by_one_witness:
  "is_argsort stable_argsort
   \<and> (\<exists>found. enrichment_data stable_argsort example_session =
                 Inr ([0, 0, 1 / 4, 1 / 2, 3 / 4], found) \<and> length found = 5)"
  using is_argsort_stable enrichment_data_off_by_one [OF is_argsort_stable] by (rule conjI)

text \<open>
  C9, as stated: \<open>enrichment_factor(100)\<close> should be 100 on every populated session with
  an active. In \<open>skip_session\<close> the embedding of the second active raises, the store
  holds only one of the two actives, and the result is 50 (the two stored scores differ,
  so that the choice of the argsort plays no part).
\<close>

theorem skipped_active_enrichment:
  "is_argsort stable_argsort
   \<and> populated skip_session \<and> n_actives skip_session = 2
   \<and> enrichment_factor stable_argsort skip_session 100 = Inr (Fin 50)"
proof -
  have "populated skip_session \<and> n_actives skip_session = 2
        \<and> enrichment_factor stable_argsort skip_session 100 = Inr (Fin 50)"
    by code_simp
  with is_argsort_stable show ?thesis by (rule conjI)
qed

text \<open>
  C9, amended: for every argsort that NumPy may implement, on every populated session
  with at least one active in which no molecule was left out of the store (the store is
  as long as the label array), \<open>enrichment_factor(100)\<close> returns exactly 100; for a
  store of a single record this needs that the argsort of the two equal screened
  fractions 0, 0 puts the second one last. On every session \<open>enrichment_factor(p)\<close>
  fails with \<open>OpenPharmacophoreValueError\<close> for every p below 0 or above 100.
\<close>

theorem enrichment_factor_full:
  assumes arg: "is_argsort argsort"
  shows "(populated s \<and> aligned s \<and> 0 < n_actives s
          \<and> (length (molecules s) = 1 \<longrightarrow> last (argsort [0, 0]) = 1) \<longrightarrow>
            enrichment_factor argsort s 100 = Inr (Fin 100))
   \<and> (p < 0 \<or> p > 100 \<longrightarrow> enrichment_factor argsort s p = Inl OpenPharmacophoreValueError)"
proof (intro conjI impI)
  assume "p < 0 \<or> p > 100"
  then show "enrichment_factor argsort s p = Inl OpenPharmacophoreValueError"
    by (auto simp: enrichment_factor_def)
next
  assume a: "populated s \<and> aligned s \<and> 0 < n_actives s
             \<and> (length (molecules s) = 1 \<longrightarrow> last (argsort [0, 0]) = 1)"
  then obtain ls where b: "bioactivities s = Some ls" and bin: "binary ls"
    and na: "n_actives s = sum_list ls" and len: "length (molecules s) = length ls"
    by (auto simp: populated_def aligned_def split: option.splits)
  from a have pos: "0 < n_actives s" by simp
  from a have one: "length (molecules s) = 1 \<longrightarrow> last (argsort [0, 0]) = 1" by simp
  define labels where "labels = map (\<lambda>i. ls ! i) (sorted_indices argsort s)"
  define n where "n = length labels"
  have nl: "n = length (molecules s)"
    by (simp add: n_def labels_def length_sorted_indices [OF arg])
  have sl: "sorted_labels argsort s = Inr labels"
    unfolding labels_def by (rule sorted_labels_Some [OF arg b]) (simp add: len)
  have "mset labels = mset (take (length (molecules s)) ls)"
    unfolding labels_def by (rule mset_sorted_labels [OF arg]) (simp add: len)
  then have "mset labels = mset ls" by (simp add: len)
  then have "count_actives labels = count_actives ls" by (rule count_actives_mset)
  then have cnt: "int (count_actives labels) = n_actives s"
    using bin na by (simp add: binary_sum_list count_actives_def)
  define screened where "screened = 0 # map (\<lambda>k. (of_nat k :: rat) / of_nat n) [0..<n]"
  define found where "found = Fin 0 # map (\<lambda>k. np_div (of_int (int (count_actives (take (Suc k) labels))))
                                 (of_int (n_actives s))) [0..<n]"
  have ed: "enrichment_data argsort s = Inr (screened, found)"
    unfolding screened_def found_def n_def by (rule enrichment_data_Inr [OF sl])
  have le1: "\<forall>v \<in> set screened. v \<le> 100 / 100"
    by (auto simp: screened_def divide_le_eq)
  then have flt: "filter (\<lambda>v. v \<le> 100 / 100) screened = screened" by (simp add: filter_id_conv)
  have sne: "screened \<noteq> []" by (simp add: screened_def)
  have one': "argsort screened \<noteq> []" by (rule last_argsort(1) [OF arg sne])
  have n0: "n \<noteq> 0"
  proof
    assume "n = 0"
    then have "labels = []" by (simp add: n_def)
    with cnt pos show False by (simp add: count_actives_def)
  qed
  have lst: "last (argsort screened) = n"
  proof (cases "n = 1")
    case True
    then have "screened = [0, 0]" by (simp add: screened_def)
    with one True nl show ?thesis by simp
  next
    case False
    with n0 have "2 \<le> n" by simp
    from last_argsort_screened [OF arg this] show ?thesis by (simp add: screened_def)
  qed
  have lf: "length found = Suc n" by (simp add: found_def)
  have fn: "found ! n = Fin 1"
  proof (cases n)
    case 0
    with n0 show ?thesis by simp
  next
    case (Suc m)
    then have "found ! n = np_div (of_int (int (count_actives (take (Suc m) labels)))) (of_int (n_actives s))"
      by (simp add: found_def nth_append)
    also have "take (Suc m) labels = labels" using Suc by (simp add: n_def)
    finally show ?thesis using cnt pos by (simp add: np_div_def)
  qed
  show "enrichment_factor argsort s 100 = Inr (Fin 100)"
    using ed flt one' lst lf fn
    by (simp add: enrichment_factor_def np_scale_def)
qed

theorem enrichment_factor_full_witness:
  "is_argsort stable_argsort
   \<and> populated example_session \<and> aligned example_session \<and> 0 < n_actives example_session
   \<and> length (molecules example_session) \<noteq> 1
   \<and> enrichment_factor stable_argsort example_session 100 = Inr (Fin 100)
   \<and> populated one_active_session \<and> aligned one_active_session \<and> 0 < n_actives one_active_session
   \<and> length (molecules one_active_session) = 1 \<and> last (stable_argsort [0, 0]) = 1
   \<and> enrichment_factor stable_argsort one_active_session 100 = Inr (Fin 100)
   \<and> ((- 1 :: rat) < 0 \<or> (- 1 :: rat) > 100)
   \<and> enrichment_factor stable_argsort example_session (- 1) = Inl OpenPharmacophoreValueError"
proof -
  have h: "populated example_session \<and> aligned example_session \<and> 0 < n_actives example_session"
    and hl: "length (molecules example_session) \<noteq> 1"
    and k: "populated one_active_session \<and> aligned one_active_session \<and> 0 < n_actives one_active_session"
    and kl: "length (molecules one_active_session) = 1" and kz: "last (stable_argsort [0, 0]) = 1"
    by code_simp+
  have h2: "(- 1 :: rat) < 0 \<or> (- 1 :: rat) > 100" by simp
  note t = enrichment_factor_full [OF is_argsort_stable, of example_session "- 1"]
  note u = enrichment_factor_full [OF is_argsort_stable, of one_active_session "- 1"]
  from t h hl have c1: "enrichment_factor stable_argsort example_session 100 = Inr (Fin 100)" by metis
  from u k kz have c3: "enrichment_factor stable_argsort one_active_session 100 = Inr (Fin 100)" by metis
  from t h2 have c2: "enrichment_factor stable_argsort example_session (- 1) = Inl OpenPharmacophoreValueError" by metis
  from is_argsort_stable h hl c1 k kl kz c3 h2 c2 show ?thesis by (intro conjI) simp_all
qed

section \<open>The area under the ROC curve\<close>

lemma trapezoid_bound:
  assumes "0 \<le> a" "a \<le> b" "0 \<le> c" "c \<le> d" "0 \<le> r" "r \<le> a * c"
  shows "0 \<le> r + trapezoid_area b a d c" and "r + trapezoid_area b a d c \<le> b * d"
proof -
  have t: "trapezoid_area b a d c = (b - a) * ((d + c) / 2)"
    using assms by (simp add: trapezoid_area_def)
  have nn: "0 \<le> (b - a) * ((d + c) / 2)" using assms by simp
  with assms(5) show "0 \<le> r + trapezoid_area b a d c" by (simp add: t)
  have "(d + c) / 2 \<le> d" using assms by simp
  then have "(b - a) * ((d + c) / 2) \<le> (b - a) * d"
    using assms by (intro mult_left_mono) simp_all
  moreover have "a * c \<le> a * d" using assms by (intro mult_left_mono) simp_all
  ultimately have "r + (b - a) * ((d + c) / 2) \<le> a * d + (b - a) * d"
    using assms(6) by linarith
  also have "a * d + (b - a) * d = b * d" by (simp add: algebra_simps)
  finally show "r + trapezoid_area b a d c \<le> b * d" by (simp add: t)
qed

lemma auc_step_inv:
  assumes "auc_inv st"
  shows "auc_inv (auc_step st z)"
proof -
  from assms have h: "(0::rat) \<le> of_int (false_pos_prev st)"
    "(of_int (false_pos_prev st) :: rat) \<le> of_int (false_pos st)"
    "(0::rat) \<le> of_int (true_pos_prev st)"
    "(of_int (true_pos_prev st) :: rat) \<le> of_int (true_pos st)"
    "0 \<le> area st" "area st \<le> of_int (false_pos_prev st) * of_int (true_pos_prev st)"
    by (simp_all add: auc_inv_def)
  note tb = trapezoid_bound [OF h]
  from assms have i: "0 \<le> false_pos_prev st" "false_pos_prev st \<le> false_pos st"
    "0 \<le> true_pos_prev st" "true_pos_prev st \<le> true_pos st"
    by (simp_all add: auc_inv_def)
  show ?thesis
  proof (cases "fst z \<noteq> score_prev st")
    case True
    then show ?thesis using tb i
      by (simp add: auc_step_def auc_inv_def Let_def)
  next
    case False
    then show ?thesis using h i
      by (simp add: auc_step_def auc_inv_def Let_def)
  qed
qed

lemma auc_loop_inv: "auc_inv st \<Longrightarrow> auc_inv (auc_loop zs st)"
  by (induction zs arbitrary: st) (simp_all add: auc_loop_Nil auc_loop_Cons auc_step_inv)

lemma auc_counts:
  "false_pos (auc_loop zs st) = false_pos st + int (length (filter (\<lambda>z. snd z \<noteq> 1) zs))
   \<and> true_pos (auc_loop zs st) = true_pos st + int (length (filter (\<lambda>z. snd z = 1) zs))"
  by (induction zs arbitrary: st) (simp_all add: auc_loop_Nil auc_loop_Cons auc_step_def Let_def)

lemma auc_step_score_prev: "score_prev (auc_step st z) = fst z"
  by (simp add: auc_step_def Let_def)

lemma auc_loop_score_prev: "zs \<noteq> [] \<Longrightarrow> score_prev (auc_loop zs st) = fst (last zs)"
  by (induction zs arbitrary: st) (auto simp: auc_loop_Nil auc_loop_Cons auc_step_score_prev)

lemma auc_inactive_run:
  assumes "\<forall>z \<in> set zs. snd z \<noteq> 1"
    and "true_pos st = T" and "true_pos_prev st = T" and "0 \<le> T"
    and "area st = of_int (false_pos_prev st) * of_int T"
    and "false_pos_prev st \<le> false_pos st"
  shows "true_pos (auc_loop zs st) = T \<and> true_pos_prev (auc_loop zs st) = T
         \<and> area (auc_loop zs st) = of_int (false_pos_prev (auc_loop zs st)) * of_int T
         \<and> false_pos_prev (auc_loop zs st) \<le> false_pos (auc_loop zs st)"
  using assms
proof (induction zs arbitrary: st)
  case Nil
  then show ?case by (simp add: auc_loop_Nil)
next
  case (Cons z zs)
  from Cons.prems have z: "snd z \<noteq> 1" and rest: "\<forall>z \<in> set zs. snd z \<noteq> 1" by simp_all
  have le: "(of_int (false_pos_prev st) :: rat) \<le> of_int (false_pos st)"
    using Cons.prems(6) by simp
  have T0: "(0::rat) \<le> of_int T" using Cons.prems(4) by simp
  have tr: "trapezoid_area (of_int (false_pos st)) (of_int (false_pos_prev st)) (of_int T) (of_int T)
            = (of_int (false_pos st) - of_int (false_pos_prev st)) * of_int T"
    using le T0 by (simp add: trapezoid_area_def)
  have a1: "true_pos (auc_step st z) = T" "true_pos_prev (auc_step st z) = T"
    using z Cons.prems(2,3) by (simp_all add: auc_step_def Let_def)
  have a2: "area (auc_step st z) = of_int (false_pos_prev (auc_step st z)) * of_int T"
    using z Cons.prems(2,3,5) tr by (simp add: auc_step_def Let_def algebra_simps)
  have a3: "false_pos_prev (auc_step st z) \<le> false_pos (auc_step st z)"
    using z Cons.prems(6) by (simp add: auc_step_def Let_def)
  from Cons.IH [OF rest a1 Cons.prems(4) a2 a3] show ?case by (simp add: auc_loop_Cons)
qed

lemma auc_equal_run:
  assumes "\<forall>z \<in> set zs. fst z = c"
    and "false_pos_prev st = 0" and "true_pos_prev st = 0" and "area st = 0"
    and "score_prev st = c \<or> (false_pos st = 0 \<and> true_pos st = 0)"
  shows "false_pos_prev (auc_loop zs st) = 0 \<and> true_pos_prev (auc_loop zs st) = 0
         \<and> area (auc_loop zs st) = 0"
  using assms
proof (induction zs arbitrary: st)
  case Nil
  then show ?case by (simp add: auc_loop_Nil)
next
  case (Cons z zs)
  from Cons.prems have z: "fst z = c" and rest: "\<forall>z \<in> set zs. fst z = c" by simp_all
  have b: "false_pos_prev (auc_step st z) = 0" "true_pos_prev (auc_step st z) = 0"
    "area (auc_step st z) = 0"
    using z Cons.prems(2-5) by (auto simp: auc_step_def Let_def trapezoid_area_def)
  have "score_prev (auc_step st z) = c" using z by (simp add: auc_step_score_prev)
  then have d: "score_prev (auc_step st z) = c \<or> (false_pos (auc_step st z) = 0 \<and> true_pos (auc_step st z) = 0)"
    by simp
  from Cons.IH [OF rest b d] show ?case by (simp add: auc_loop_Cons)
qed

lemma partition_sorted_wrt:
  "sorted_wrt (\<lambda>a b. Q b \<longrightarrow> Q a) zs \<Longrightarrow> zs = filter Q zs @ filter (\<lambda>z. \<not> Q z) zs"
proof (induction zs)
  case Nil
  then show ?case by simp
next
  case (Cons z zs)
  show ?case
  proof (cases "Q z")
    case True
    with Cons show ?thesis by simp
  next
    case False
    with Cons.prems have "\<forall>b \<in> set zs. \<not> Q b" by auto
    then have "filter Q zs = []" "filter (\<lambda>z. \<not> Q z) zs = zs"
      by (simp_all add: filter_empty_conv filter_id_conv)
    with False show ?thesis by simp
  qed
qed

lemma sweep_map:
  assumes arg: "is_argsort argsort"
  shows "sweep argsort s ls = map (\<lambda>i. (map score (molecules s) ! i, ls ! i)) (sorted_indices argsort s)"
  by (simp add: sweep_def sorted_scores_indices [OF arg] zip_map_map zip_same_conv_map)

lemma sweep_fst:
  assumes arg: "is_argsort argsort"
  shows "map fst (sweep argsort s ls) = sorted_scores s"
  by (simp add: sweep_map [OF arg] sorted_scores_indices [OF arg] comp_def)

lemma sweep_snd:
  assumes arg: "is_argsort argsort"
  shows "map snd (sweep argsort s ls) = map (\<lambda>i. ls ! i) (sorted_indices argsort s)"
  by (simp add: sweep_map [OF arg] comp_def)

lemma sweep_member:
  assumes arg: "is_argsort argsort"
    and len: "length (molecules s) \<le> length ls" and z: "z \<in> set (sweep argsort s ls)"
  shows "\<exists>m l. (m, l) \<in> set (zip (molecules s) ls) \<and> z = (score m, l)"
proof -
  from z obtain i where i: "i \<in> set (sorted_indices argsort s)"
    and zi: "z = (map score (molecules s) ! i, ls ! i)"
    by (auto simp: sweep_map [OF arg])
  from i have lt: "i < length (molecules s)" by (simp add: set_sorted_indices [OF arg])
  with len have "(molecules s ! i, ls ! i) \<in> set (zip (molecules s) ls)"
    by (auto simp: in_set_zip)
  moreover from lt zi have "z = (score (molecules s ! i), ls ! i)" by simp
  ultimately show ?thesis by blast
qed

lemma sweep_descending:
  assumes arg: "is_argsort argsort"
  shows "sorted_wrt (\<lambda>a b. fst b \<le> fst a) (sweep argsort s ls)"
proof -
  have "sorted (rev (map fst (sweep argsort s ls)))"
    by (simp add: sweep_fst [OF arg] sorted_scores_def np_sort_def)
  then show ?thesis by (simp add: sorted_wrt_rev sorted_wrt_map)
qed

lemma length_filter_snd:
  "length (filter (\<lambda>z. P (snd z)) zs) = length (filter P (map snd zs))"
  by (induction zs) simp_all

lemma length_filter_take: "length (filter P (take n ls)) \<le> length (filter P ls)"
proof -
  have "length (filter P ls) = length (filter P (take n ls @ drop n ls))" by simp
  also have "\<dots> = length (filter P (take n ls)) + length (filter P (drop n ls))"
    by (simp only: filter_append length_append)
  finally show ?thesis by simp
qed

lemma length_filter_mset:
  "mset as = mset bs \<Longrightarrow> length (filter P as) = length (filter P bs)"
  by (metis mset_filter size_mset)

lemma binary_inactives:
  assumes "binary ls"
  shows "int (length (filter (\<lambda>l. l \<noteq> 1) ls)) = int (length ls) - sum_list ls"
proof -
  have "length ls = length (filter (\<lambda>l. l = 1) ls) + length (filter (\<lambda>l. l \<noteq> 1) ls)"
    by (metis sum_length_filter_compl)
  with binary_sum_list [OF assms] show ?thesis by simp
qed

lemma sweep_counts:
  assumes arg: "is_argsort argsort"
    and b: "bioactivities s = Some ls" and pop: "populated s"
  shows "int (length (filter (\<lambda>z. snd z = 1) (sweep argsort s ls))) \<le> n_actives s"
    and "int (length (filter (\<lambda>z. snd z \<noteq> 1) (sweep argsort s ls))) \<le> n_inactives s"
    and "aligned s \<Longrightarrow> int (length (filter (\<lambda>z. snd z = 1) (sweep argsort s ls))) = n_actives s"
    and "aligned s \<Longrightarrow> int (length (filter (\<lambda>z. snd z \<noteq> 1) (sweep argsort s ls))) = n_inactives s"
proof -
  from pop b have bin: "binary ls" and na: "n_actives s = sum_list ls"
    and ni: "n_inactives s = int (length ls) - sum_list ls"
    and len: "length (molecules s) \<le> length ls"
    by (simp_all add: populated_def)
  have ms: "mset (map snd (sweep argsort s ls)) = mset (take (length (molecules s)) ls)"
    unfolding sweep_snd [OF arg] by (rule mset_sorted_labels [OF arg len])
  have c: "length (filter (\<lambda>z. P (snd z)) (sweep argsort s ls)) = length (filter P (take (length (molecules s)) ls))" for P
  proof -
    have "length (filter (\<lambda>z. P (snd z)) (sweep argsort s ls)) = length (filter P (map snd (sweep argsort s ls)))"
      by (rule length_filter_snd)
    also have "\<dots> = length (filter P (take (length (molecules s)) ls))"
      by (rule length_filter_mset [OF ms])
    finally show ?thesis .
  qed
  have P1: "int (length (filter (\<lambda>l. l = 1) ls)) = n_actives s"
    using bin na by (simp add: binary_sum_list)
  have P0: "int (length (filter (\<lambda>l. l \<noteq> 1) ls)) = n_inactives s"
    using bin ni by (simp add: binary_inactives)
  show "int (length (filter (\<lambda>z. snd z = 1) (sweep argsort s ls))) \<le> n_actives s"
    using c [of "\<lambda>l. l = 1"] length_filter_take [of "\<lambda>l. l = 1" "length (molecules s)" ls] P1 by linarith
  show "int (length (filter (\<lambda>z. snd z \<noteq> 1) (sweep argsort s ls))) \<le> n_inactives s"
    using c [of "\<lambda>l. l \<noteq> 1"] length_filter_take [of "\<lambda>l. l \<noteq> 1" "length (molecules s)" ls] P0 by linarith
  {
    assume "aligned s"
    with b have "take (length (molecules s)) ls = ls" by (simp add: aligned_def)
    with c [of "\<lambda>l. l = 1"] c [of "\<lambda>l. l \<noteq> 1"] P1 P0
    have "int (length (filter (\<lambda>z. snd z = 1) (sweep argsort s ls))) = n_actives s"
      "int (length (filter (\<lambda>z. snd z \<noteq> 1) (sweep argsort s ls))) = n_inactives s" by simp_all
  }
  then show "aligned s \<Longrightarrow> int (length (filter (\<lambda>z. snd z = 1) (sweep argsort s ls))) = n_actives s"
    and "aligned s \<Longrightarrow> int (length (filter (\<lambda>z. snd z \<noteq> 1) (sweep argsort s ls))) = n_inactives s"
    by simp_all
qed

lemma auc_inv_init: "auc_inv auc_init"
  by (simp add: auc_inv_def auc_init_def)

lemma auc_area_sweep:
  "auc_area s (map (\<lambda>i. ls ! i) (sorted_indices argsort s)) =
     area (auc_loop (sweep argsort s ls) auc_init)
     + trapezoid_area (of_int (n_inactives s)) (of_int (false_pos_prev (auc_loop (sweep argsort s ls) auc_init)))
                      (of_int (n_actives s)) (of_int (true_pos_prev (auc_loop (sweep argsort s ls) auc_init)))"
  by (simp add: auc_area_def sweep_def Let_def)

lemma AUC_value:
  assumes arg: "is_argsort argsort"
    and b: "bioactivities s = Some ls" and pop: "populated s"
    and P: "0 < n_actives s" and N: "0 < n_inactives s"
  shows "AUC argsort s = Inr (auc_area s (map (\<lambda>i. ls ! i) (sorted_indices argsort s))
                       / (of_int (n_inactives s) * of_int (n_actives s)))"
    and "0 \<le> auc_area s (map (\<lambda>i. ls ! i) (sorted_indices argsort s))
                / (of_int (n_inactives s) * of_int (n_actives s))"
    and "auc_area s (map (\<lambda>i. ls ! i) (sorted_indices argsort s))
                / (of_int (n_inactives s) * of_int (n_actives s)) \<le> 1"
proof -
  define st where "st = auc_loop (sweep argsort s ls) auc_init"
  define A where "A = auc_area s (map (\<lambda>i. ls ! i) (sorted_indices argsort s))"
  from pop b have len: "length (molecules s) \<le> length ls" by (simp add: populated_def)
  have sl: "sorted_labels argsort s = Inr (map (\<lambda>i. ls ! i) (sorted_indices argsort s))"
    by (rule sorted_labels_Some [OF arg b len])
  have inv: "auc_inv st" unfolding st_def by (rule auc_loop_inv [OF auc_inv_init])
  have fp: "false_pos st \<le> n_inactives s" and tp: "true_pos st \<le> n_actives s"
    using auc_counts [of "sweep argsort s ls" auc_init] sweep_counts(1,2) [OF arg b pop]
    by (simp_all add: st_def auc_init_def)
  from inv fp tp have h: "(0::rat) \<le> of_int (false_pos_prev st)"
    "(of_int (false_pos_prev st) :: rat) \<le> of_int (n_inactives s)"
    "(0::rat) \<le> of_int (true_pos_prev st)"
    "(of_int (true_pos_prev st) :: rat) \<le> of_int (n_actives s)"
    "0 \<le> area st" "area st \<le> of_int (false_pos_prev st) * of_int (true_pos_prev st)"
    by (simp_all add: auc_inv_def)
  have Aeq: "A = area st + trapezoid_area (of_int (n_inactives s)) (of_int (false_pos_prev st))
                      (of_int (n_actives s)) (of_int (true_pos_prev st))"
    unfolding A_def st_def by (rule auc_area_sweep)
  from trapezoid_bound [OF h] have A0: "0 \<le> A"
    and A1: "A \<le> of_int (n_inactives s) * of_int (n_actives s)"
    by (simp_all add: Aeq)
  have pos: "(0::rat) < of_int (n_inactives s) * of_int (n_actives s)"
    using P N by (intro mult_pos_pos) simp_all
  show r0: "0 \<le> A / (of_int (n_inactives s) * of_int (n_actives s))"
    using A0 pos by (intro divide_nonneg_pos)
  show r1: "A / (of_int (n_inactives s) * of_int (n_actives s)) \<le> 1"
    using A1 pos by (simp only: divide_le_eq_1_pos)
  have nz: "(of_int (n_inactives s * n_actives s) :: rat) \<noteq> 0" using P N by simp
  have dv: "np_div A (of_int (n_inactives s * n_actives s))
              = Fin (A / (of_int (n_inactives s) * of_int (n_actives s)))"
    using nz by (simp add: np_div_def)
  have "AUC argsort s = (case np_div A (of_int (n_inactives s * n_actives s)) of
                   Fin a \<Rightarrow> if 0 \<le> a \<and> a \<le> 1 then Inr a else Inl AssertionError
                 | _ \<Rightarrow> Inl AssertionError)"
    by (simp only: AUC_def sl sum.case A_def)
  also have "\<dots> = Inr (A / (of_int (n_inactives s) * of_int (n_actives s)))"
    unfolding dv using r0 r1 by (simp only: npfloat.case simp_thms if_True)
  finally show "AUC argsort s = Inr (A / (of_int (n_inactives s) * of_int (n_actives s)))" .
qed

lemma auc_area_equal_scores:
  assumes arg: "is_argsort argsort"
    and b: "bioactivities s = Some ls" and pop: "populated s"
    and P: "0 < n_actives s" and N: "0 < n_inactives s" and eq: "equal_scores s"
  shows "auc_area s (map (\<lambda>i. ls ! i) (sorted_indices argsort s))
           = of_int (n_inactives s) * of_int (n_actives s) / 2"
proof -
  from pop b have len: "length (molecules s) \<le> length ls" by (simp add: populated_def)
  define c where "c = (if molecules s = [] then 0 else score (hd (molecules s)))"
  have all: "\<forall>z \<in> set (sweep argsort s ls). fst z = c"
  proof
    fix z assume "z \<in> set (sweep argsort s ls)"
    from sweep_member [OF arg len this] obtain m l where
      ml: "(m, l) \<in> set (zip (molecules s) ls)" and z: "z = (score m, l)" by blast
    from ml have m: "m \<in> set (molecules s)" by (rule set_zip_leftD)
    then have ne: "molecules s \<noteq> []" by auto
    then have "hd (molecules s) \<in> set (molecules s)" by simp
    moreover have "\<forall>a \<in> set (molecules s). \<forall>b \<in> set (molecules s). score a = score b"
      using eq unfolding equal_scores_def list_all_iff .
    ultimately have "score m = score (hd (molecules s))"
      using m by blast
    with ne z show "fst z = c" by (simp add: c_def)
  qed
  have "false_pos_prev auc_init = 0" "true_pos_prev auc_init = 0" "area auc_init = 0"
    "score_prev auc_init = c \<or> (false_pos auc_init = 0 \<and> true_pos auc_init = 0)"
    by (simp_all add: auc_init_def)
  from auc_equal_run [OF all this]
  have "false_pos_prev (auc_loop (sweep argsort s ls) auc_init) = 0"
    "true_pos_prev (auc_loop (sweep argsort s ls) auc_init) = 0"
    "area (auc_loop (sweep argsort s ls) auc_init) = 0" by simp_all
  then show ?thesis using P N by (simp add: auc_area_sweep trapezoid_area_def)
qed

lemma filter_filter_same: "filter Q (filter Q zs) = filter Q zs"
  by (induction zs) simp_all

lemma ranking_sweep:
  assumes arg: "is_argsort argsort"
    and b: "bioactivities s = Some ls" and len: "length (molecules s) \<le> length ls"
    and r: "\<forall>a \<in> set (zip (molecules s) ls). \<forall>b \<in> set (zip (molecules s) ls). R a b \<longrightarrow> S (score (fst a)) (score (fst b))"
    and R: "\<And>m l m' l'. R (m, l) (m', l') = R' l l'"
    and u: "u \<in> set (sweep argsort s ls)" and v: "v \<in> set (sweep argsort s ls)" and R': "R' (snd u) (snd v)"
  shows "S (fst u) (fst v)"
proof -
  from sweep_member [OF arg len u] obtain m l where
    ml: "(m, l) \<in> set (zip (molecules s) ls)" and ue: "u = (score m, l)" by blast
  from sweep_member [OF arg len v] obtain m' l' where
    ml': "(m', l') \<in> set (zip (molecules s) ls)" and ve: "v = (score m', l')" by blast
  from R' ue ve have "R (m, l) (m', l')" by (simp add: R)
  with r ml ml' have "S (score m) (score m')" by fastforce
  with ue ve show ?thesis by simp
qed

lemma auc_area_perfect:
  assumes arg: "is_argsort argsort"
    and b: "bioactivities s = Some ls" and pop: "populated s"
    and P: "0 < n_actives s" and N: "0 < n_inactives s"
    and al: "aligned s" and pr: "perfect_ranking s"
  shows "auc_area s (map (\<lambda>i. ls ! i) (sorted_indices argsort s))
           = of_int (n_inactives s) * of_int (n_actives s)"
proof -
  from pop b have len: "length (molecules s) \<le> length ls" by (simp add: populated_def)
  define zs where "zs = sweep argsort s ls"
  define A where "A = filter (\<lambda>z. snd z = 1) zs"
  define I where "I = filter (\<lambda>z. snd z \<noteq> 1) zs"
  have pr': "\<forall>a \<in> set (zip (molecules s) ls). \<forall>b \<in> set (zip (molecules s) ls).
               snd a = 1 \<and> snd b \<noteq> 1 \<longrightarrow> score (fst b) < score (fst a)"
    using pr b unfolding perfect_ranking_def list_all_iff by simp
  have rel: "fst v < fst u" if "u \<in> set zs" "v \<in> set zs" "snd u = 1" "snd v \<noteq> 1" for u v
    using ranking_sweep [where R = "\<lambda>a b. snd a = 1 \<and> snd b \<noteq> 1" and R' = "\<lambda>l l'. l = 1 \<and> l' \<noteq> 1"
        and S = "\<lambda>p q. q < p", OF arg b len pr' _ that(1) [unfolded zs_def] that(2) [unfolded zs_def]]
      that(3,4) by simp
  have "sorted_wrt (\<lambda>a b. fst b \<le> fst a) zs" unfolding zs_def by (rule sweep_descending [OF arg])
  then have "sorted_wrt (\<lambda>a b. snd b = 1 \<longrightarrow> snd a = 1) zs"
  proof (rule sorted_wrt_mono_rel [rotated])
    fix u v assume uv: "u \<in> set zs" "v \<in> set zs" "fst v \<le> fst u"
    show "snd v = 1 \<longrightarrow> snd u = 1"
    proof (rule impI, rule ccontr)
      assume "snd v = 1" "snd u \<noteq> 1"
      with rel [of v u] uv show False by simp
    qed
  qed
  then have split: "zs = A @ I"
    unfolding A_def I_def by (rule partition_sorted_wrt)
  have lA: "int (length A) = n_actives s" and lI: "int (length I) = n_inactives s"
    using sweep_counts(3,4) [OF arg b pop al] by (simp_all add: A_def I_def zs_def)
  from lA P have Ane: "A \<noteq> []" by auto
  from lI N obtain b0 I' where Ieq: "I = b0 # I'" by (cases I) auto
  have A1: "\<forall>z \<in> set A. snd z = 1" by (simp add: A_def)
  have I0: "\<forall>z \<in> set I. snd z \<noteq> 1" by (simp add: I_def)
  define st1 where "st1 = auc_loop A auc_init"
  have "false_pos auc_init = false_pos_prev auc_init" by (simp add: auc_init_def)
  from auc_only_actives [OF A1 this]
  have s1: "false_pos st1 = 0" "false_pos_prev st1 = 0" "area st1 = 0"
    by (simp_all add: st1_def auc_init_def)
  have "filter (\<lambda>z. snd z = 1) A = A" unfolding A_def by (rule filter_filter_same)
  with auc_counts [of A auc_init] lA have tp1: "true_pos st1 = n_actives s"
    by (simp add: st1_def auc_init_def)
  have sp1: "score_prev st1 = fst (last A)"
    unfolding st1_def by (rule auc_loop_score_prev [OF Ane])
  have "last A \<in> set zs" "snd (last A) = 1"
    using Ane A1 last_in_set [OF Ane] by (auto simp: split)
  moreover have "b0 \<in> set zs" "snd b0 \<noteq> 1" using I0 by (simp_all add: split Ieq)
  ultimately have "fst b0 < fst (last A)" using rel by blast
  with sp1 have ch: "fst b0 \<noteq> score_prev st1" by simp
  define st2 where "st2 = auc_step st1 b0"
  have b0: "snd b0 \<noteq> 1" using I0 by (simp add: Ieq)
  have s2: "true_pos st2 = n_actives s" "true_pos_prev st2 = n_actives s"
    "area st2 = of_int (false_pos_prev st2) * of_int (n_actives s)"
    "false_pos_prev st2 \<le> false_pos st2" "false_pos st2 = 1"
    using ch b0 s1 tp1 by (simp_all add: st2_def auc_step_def Let_def trapezoid_area_def)
  define st3 where "st3 = auc_loop I' st2"
  have I0': "\<forall>z \<in> set I'. snd z \<noteq> 1" using I0 by (simp add: Ieq)
  have P0: "0 \<le> n_actives s" using P by simp
  from auc_inactive_run [OF I0' s2(1) s2(2) P0 s2(3) s2(4)]
  have s3: "true_pos_prev st3 = n_actives s"
    "area st3 = of_int (false_pos_prev st3) * of_int (n_actives s)"
    "false_pos_prev st3 \<le> false_pos st3"
    by (simp_all add: st3_def)
  have "filter (\<lambda>z. snd z \<noteq> 1) I' = I'" using I0' by (simp add: filter_id_conv)
  with auc_counts [of I' st2] s2(5) lI have fp3: "false_pos st3 = n_inactives s"
    by (simp add: st3_def Ieq)
  have whole: "auc_loop (sweep argsort s ls) auc_init = st3"
    using split by (simp add: zs_def [symmetric] Ieq auc_loop_append auc_loop_Cons st1_def st2_def st3_def)
  have le: "(of_int (false_pos_prev st3) :: rat) \<le> of_int (n_inactives s)"
    using s3(3) fp3 by simp
  have Pr: "(0::rat) \<le> of_int (n_actives s)" using P by simp
  have "trapezoid_area (of_int (n_inactives s)) (of_int (false_pos_prev st3))
                       (of_int (n_actives s)) (of_int (n_actives s))
        = (of_int (n_inactives s) - of_int (false_pos_prev st3)) * of_int (n_actives s)"
    using le Pr by (simp add: trapezoid_area_def)
  then show ?thesis
    unfolding auc_area_sweep whole s3(1) s3(2) by (simp add: algebra_simps)
qed

lemma auc_area_inverted:
  assumes arg: "is_argsort argsort"
    and b: "bioactivities s = Some ls" and pop: "populated s"
    and P: "0 < n_actives s" and N: "0 < n_inactives s"
    and al: "aligned s" and pr: "inverted_ranking s"
  shows "auc_area s (map (\<lambda>i. ls ! i) (sorted_indices argsort s)) = 0"
proof -
  from pop b have len: "length (molecules s) \<le> length ls" by (simp add: populated_def)
  define zs where "zs = sweep argsort s ls"
  define A where "A = filter (\<lambda>z. snd z = 1) zs"
  define I where "I = filter (\<lambda>z. snd z \<noteq> 1) zs"
  have pr': "\<forall>a \<in> set (zip (molecules s) ls). \<forall>b \<in> set (zip (molecules s) ls).
               snd a = 1 \<and> snd b \<noteq> 1 \<longrightarrow> score (fst a) < score (fst b)"
    using pr b unfolding inverted_ranking_def list_all_iff by simp
  have rel: "fst u < fst v" if "u \<in> set zs" "v \<in> set zs" "snd u = 1" "snd v \<noteq> 1" for u v
    using ranking_sweep [where R = "\<lambda>a b. snd a = 1 \<and> snd b \<noteq> 1" and R' = "\<lambda>l l'. l = 1 \<and> l' \<noteq> 1"
        and S = "\<lambda>p q. p < q", OF arg b len pr' _ that(1) [unfolded zs_def] that(2) [unfolded zs_def]]
      that(3,4) by simp
  have "sorted_wrt (\<lambda>a b. fst b \<le> fst a) zs" unfolding zs_def by (rule sweep_descending [OF arg])
  then have "sorted_wrt (\<lambda>a b. snd b \<noteq> 1 \<longrightarrow> snd a \<noteq> 1) zs"
  proof (rule sorted_wrt_mono_rel [rotated])
    fix u v assume uv: "u \<in> set zs" "v \<in> set zs" "fst v \<le> fst u"
    show "snd v \<noteq> 1 \<longrightarrow> snd u \<noteq> 1"
    proof (rule impI, rule notI)
      assume "snd v \<noteq> 1" "snd u = 1"
      with rel [of u v] uv show False by simp
    qed
  qed
  then have "zs = filter (\<lambda>z. snd z \<noteq> 1) zs @ filter (\<lambda>z. \<not> snd z \<noteq> 1) zs"
    by (rule partition_sorted_wrt)
  then have split: "zs = I @ A" by (simp add: A_def I_def)
  have lA: "int (length A) = n_actives s" and lI: "int (length I) = n_inactives s"
    using sweep_counts(3,4) [OF arg b pop al] by (simp_all add: A_def I_def zs_def)
  from lI N have Ine: "I \<noteq> []" by auto
  from lA P obtain a0 A' where Aeq: "A = a0 # A'" by (cases A) auto
  have A1: "\<forall>z \<in> set A. snd z = 1" by (simp add: A_def)
  have I0: "\<forall>z \<in> set I. snd z \<noteq> 1" by (simp add: I_def)
  define st1 where "st1 = auc_loop I auc_init"
  have "true_pos auc_init = 0" "true_pos_prev auc_init = 0" by (simp_all add: auc_init_def)
  from auc_only_inactives [OF I0 this]
  have s1: "true_pos st1 = 0" "true_pos_prev st1 = 0" "area st1 = 0"
    by (simp_all add: st1_def auc_init_def)
  have sp1: "score_prev st1 = fst (last I)"
    unfolding st1_def by (rule auc_loop_score_prev [OF Ine])
  have "last I \<in> set zs" "snd (last I) \<noteq> 1"
    using Ine I0 last_in_set [OF Ine] by (auto simp: split)
  moreover have "a0 \<in> set zs" "snd a0 = 1" using A1 by (simp_all add: split Aeq)
  ultimately have "fst a0 < fst (last I)" using rel by blast
  with sp1 have ch: "fst a0 \<noteq> score_prev st1" by simp
  define st2 where "st2 = auc_step st1 a0"
  have a0: "snd a0 = 1" using A1 by (simp add: Aeq)
  have s2: "false_pos st2 = false_pos_prev st2" "area st2 = 0"
    using ch a0 s1 by (simp_all add: st2_def auc_step_def Let_def trapezoid_area_def)
  have fp2: "false_pos st2 = false_pos st1"
    using a0 by (simp add: st2_def auc_step_def Let_def)
  have "filter (\<lambda>z. snd z \<noteq> 1) I = I" unfolding I_def by (rule filter_filter_same)
  with auc_counts [of I auc_init] lI have fp1: "false_pos st1 = n_inactives s"
    by (simp add: st1_def auc_init_def)
  define st3 where "st3 = auc_loop A' st2"
  have A1': "\<forall>z \<in> set A'. snd z = 1" using A1 by (simp add: Aeq)
  from auc_only_actives [OF A1' s2(1)]
  have s3: "false_pos_prev st3 = n_inactives s" "area st3 = 0"
    using s2 fp2 fp1 by (simp_all add: st3_def)
  have whole: "auc_loop (sweep argsort s ls) auc_init = st3"
    using split by (simp add: zs_def [symmetric] Aeq auc_loop_append auc_loop_Cons st1_def st2_def st3_def)
  show ?thesis
    unfolding auc_area_sweep whole s3 by (simp add: trapezoid_area_def)
qed

lemma auc_step_tie:
  "fst z = score_prev st \<Longrightarrow>
   area (auc_step st z) = area st
   \<and> false_pos_prev (auc_step st z) = false_pos_prev st
   \<and> true_pos_prev (auc_step st z) = true_pos_prev st"
  by (simp add: auc_step_def Let_def)

text \<open>
  C2, as stated: \<open>AUC\<close> should be exactly 1 on every populated session in which every
  active scores strictly above every inactive. In \<open>skip_session\<close> the two stored
  records are ranked perfectly, but the embedding of the second active raised: the final
  segment uses the total of two actives, and the result is 3/4 (the two stored scores
  differ, so that the choice of the argsort plays no part).
\<close>

theorem skipped_active_auc:
  "is_argsort stable_argsort
   \<and> populated skip_session \<and> n_actives skip_session = 2 \<and> n_inactives skip_session = 1
   \<and> perfect_ranking skip_session \<and> AUC stable_argsort skip_session = Inr (3 / 4)"
proof -
  have "populated skip_session \<and> n_actives skip_session = 2 \<and> n_inactives skip_session = 1
        \<and> perfect_ranking skip_session \<and> AUC stable_argsort skip_session = Inr (3 / 4)"
    by code_simp
  with is_argsort_stable show ?thesis by (rule conjI)
qed

text \<open>
  C2, amended: on every populated session with at least one active and one inactive,
  \<open>AUC\<close> returns a value in [0, 1], and exactly 1/2 when all scores are equal; when in
  addition no molecule was left out of the store, it returns exactly 1 when every active
  scores strictly above every inactive and exactly 0 when every inactive scores strictly
  above every active. The value is the area accumulated by the sweep plus the final
  segment to (n_negatives, n_positives), divided by n_negatives * n_positives, and a
  record whose score equals the previous one adds no area.
\<close>

theorem AUC_properties:
  assumes arg: "is_argsort argsort"
    and pop: "populated s" and P: "0 < n_actives s" and N: "0 < n_inactives s"
  shows "\<exists>a labels. AUC argsort s = Inr a \<and> 0 \<le> a \<and> a \<le> 1
           \<and> (equal_scores s \<longrightarrow> a = 1 / 2)
           \<and> (aligned s \<and> perfect_ranking s \<longrightarrow> a = 1)
           \<and> (aligned s \<and> inverted_ranking s \<longrightarrow> a = 0)
           \<and> sorted_labels argsort s = Inr labels
           \<and> a = auc_area s labels / (of_int (n_inactives s) * of_int (n_actives s))
           \<and> (fst z = score_prev st \<longrightarrow> area (auc_step st z) = area st)"
proof -
  from pop obtain ls where b: "bioactivities s = Some ls"
    by (auto simp: populated_def split: option.splits)
  from pop b have len: "length (molecules s) \<le> length ls" by (simp add: populated_def)
  define labels where "labels = map (\<lambda>i. ls ! i) (sorted_indices argsort s)"
  define a where "a = auc_area s labels / (of_int (n_inactives s) * of_int (n_actives s))"
  have nz: "(of_int (n_inactives s) * of_int (n_actives s) :: rat) \<noteq> 0" using P N by simp
  note v = AUC_value [OF arg b pop P N, folded labels_def, folded a_def]
  have sl: "sorted_labels argsort s = Inr labels"
    unfolding labels_def by (rule sorted_labels_Some [OF arg b len])
  have e: "equal_scores s \<longrightarrow> a = 1 / 2"
  proof
    assume "equal_scores s"
    from auc_area_equal_scores [OF arg b pop P N this] nz show "a = 1 / 2"
      by (simp add: a_def labels_def)
  qed
  have p: "aligned s \<and> perfect_ranking s \<longrightarrow> a = 1"
  proof
    assume "aligned s \<and> perfect_ranking s"
    then have "aligned s" "perfect_ranking s" by simp_all
    from auc_area_perfect [OF arg b pop P N this] nz show "a = 1"
      by (simp add: a_def labels_def)
  qed
  have i: "aligned s \<and> inverted_ranking s \<longrightarrow> a = 0"
  proof
    assume "aligned s \<and> inverted_ranking s"
    then have "aligned s" "inverted_ranking s" by simp_all
    from auc_area_inverted [OF arg b pop P N this] show "a = 0"
      by (simp add: a_def labels_def)
  qed
  have t: "fst z = score_prev st \<longrightarrow> area (auc_step st z) = area st"
    using auc_step_tie [of z st] by blast
  from v e p i sl t a_def show ?thesis by blast
qed

theorem AUC_properties_witness:
  "populated ssd_session \<and> 0 < n_actives ssd_session \<and> 0 < n_inactives ssd_session
   \<and> aligned ssd_session \<and> perfect_ranking ssd_session \<and> AUC stable_argsort ssd_session = Inr 1
   \<and> populated inverted_session \<and> 0 < n_actives inverted_session \<and> 0 < n_inactives inverted_session
   \<and> aligned inverted_session \<and> inverted_ranking inverted_session \<and> AUC stable_argsort inverted_session = Inr 0
   \<and> populated tie_session \<and> 0 < n_actives tie_session \<and> 0 < n_inactives tie_session
   \<and> equal_scores tie_session \<and> AUC stable_argsort tie_session = Inr (1 / 2)
   \<and> fst (4 / 5 :: rat, 1 :: int) = score_prev (auc_init\<lparr>score_prev := 4 / 5\<rparr>)
   \<and> area (auc_step (auc_init\<lparr>score_prev := 4 / 5\<rparr>) (4 / 5, 1)) = area (auc_init\<lparr>score_prev := 4 / 5\<rparr>)"
proof -
  have p1: "populated ssd_session" "0 < n_actives ssd_session" "0 < n_inactives ssd_session"
    and q1: "aligned ssd_session \<and> perfect_ranking ssd_session"
    by code_simp+
  have p2: "populated inverted_session" "0 < n_actives inverted_session" "0 < n_inactives inverted_session"
    and q2: "aligned inverted_session \<and> inverted_ranking inverted_session"
    by code_simp+
  have p3: "populated tie_session" "0 < n_actives tie_session" "0 < n_inactives tie_session"
    and q3: "equal_scores tie_session"
    by code_simp+
  have q4: "fst (4 / 5 :: rat, 1 :: int) = score_prev (auc_init\<lparr>score_prev := 4 / 5\<rparr>)" by simp
  from AUC_properties [OF is_argsort_stable p1, of "(4 / 5, 1)" "auc_init\<lparr>score_prev := 4 / 5\<rparr>"] q1 have c1: "AUC stable_argsort ssd_session = Inr 1" by metis
  from AUC_properties [OF is_argsort_stable p2, of "(4 / 5, 1)" "auc_init\<lparr>score_prev := 4 / 5\<rparr>"] q2 have c2: "AUC stable_argsort inverted_session = Inr 0" by metis
  from AUC_properties [OF is_argsort_stable p3, of "(4 / 5, 1)" "auc_init\<lparr>score_prev := 4 / 5\<rparr>"] q3 q4
  have c3: "AUC stable_argsort tie_session = Inr (1 / 2)"
    and c4: "area (auc_step (auc_init\<lparr>score_prev := 4 / 5\<rparr>) (4 / 5, 1)) = area (auc_init\<lparr>score_prev := 4 / 5\<rparr>)"
    by metis+
  from p1 q1 c1 p2 q2 c2 p3 q3 c3 q4 c4 show ?thesis by blast
qed

section \<open>Sessions populated by one call\<close>

text \<open>
  One successful call of \<open>from_bioactivity_data\<close> on a freshly constructed session, with
  labels 0 and 1, gives a populated session; it is aligned on the fingerprint path, and on
  the geometric path when no embedding raised. On a populated, aligned session whose
  counter \<open>n_molecules\<close> is the length of the store, the assertion of
  \<open>confusion_matrix\<close> holds.
\<close>

lemma init_fresh:
  "init Pharmacophore3D = Inr (fresh SSD)" "init SparseBitVect = Inr (fresh Similarity)"
  "init OtherObject = Inl TypeError"
  by (simp_all add: init_def fresh_def)

lemma from_bioactivity_data_populated:
  assumes run: "from_bioactivity_data parses sim al (fresh metric) smiles (Rank1 labels) = (s, None)"
    and bin: "binary labels"
  shows "populated s"
    and "n_molecules s = length labels"
    and "metric = Similarity \<Longrightarrow> aligned s"
    and "metric = SSD \<Longrightarrow> list_all (embeds al) (map molecule_of smiles) \<Longrightarrow> aligned s"
proof -
  from from_bioactivity_data_None [OF run] obtain new where
    len: "length smiles = length labels"
    and s: "s = (fresh metric)\<lparr>n_actives := sum_list labels,
                    n_inactives := int (length labels) - sum_list labels,
                    bioactivities := Some labels,
                    n_molecules := (if scoring_metric (fresh metric) = Similarity then length labels
                                    else n_molecules (fresh metric) + length labels),
                    molecules := molecules (fresh metric) @ new\<rparr>"
    and new: "length new = (if scoring_metric (fresh metric) = Similarity then length labels
                            else length (filter (embeds al) (map molecule_of smiles)))"
    by auto
  have le: "length new \<le> length labels"
  proof (cases "scoring_metric (fresh metric) = Similarity")
    case True
    with new show ?thesis by simp
  next
    case False
    have "length (filter (embeds al) (map molecule_of smiles)) \<le> length (map molecule_of smiles)"
      by (rule length_filter_le)
    with False new len show ?thesis by simp
  qed
  show "populated s" using s bin le by (simp add: populated_def fresh_def)
  show "n_molecules s = length labels" using s by (simp add: fresh_def)
  show "aligned s" if "metric = Similarity"
    using s new that by (simp add: aligned_def fresh_def)
  show "aligned s" if "metric = SSD" "list_all (embeds al) (map molecule_of smiles)"
  proof -
    from that(2) have "filter (embeds al) (map molecule_of smiles) = map molecule_of smiles"
      by (simp add: list_all_iff filter_id_conv)
    with s new that(1) len show ?thesis by (simp add: aligned_def fresh_def)
  qed
qed

lemma cf_fold_sum:
  assumes "\<forall>z \<in> set zs. snd z = 0 \<or> snd z = 1"
  shows "np_sum (cf_matrix (cf_fold thr c zs)) = np_sum (cf_matrix c) + length zs"
  using assms
proof (induction zs arbitrary: c)
  case Nil
  then show ?case by (simp add: cf_fold_def)
next
  case (Cons z zs)
  from Cons.prems have z: "snd z = 0 \<or> snd z = 1" and rest: "\<forall>z \<in> set zs. snd z = 0 \<or> snd z = 1"
    by simp_all
  have step: "np_sum (cf_matrix (cf_step thr (snd z) (fst z) c)) = np_sum (cf_matrix c) + 1"
    using z by (auto simp: cf_step_def np_sum_def cf_matrix_def)
  have "cf_fold thr c (z # zs) = cf_fold thr (cf_step thr (snd z) (fst z) c) zs"
    by (simp add: cf_fold_def)
  with Cons.IH [OF rest, of "cf_step thr (snd z) (fst z) c"] step show ?case by simp
qed

lemma confusion_matrix_sum:
  assumes pop: "populated s" and al: "aligned s" and nm: "n_molecules s = length (molecules s)"
    and thr: "scoring_metric s = Similarity \<longrightarrow> t \<noteq> None"
  shows "\<exists>m. confusion_matrix s t = Inr m \<and> np_sum m = n_molecules s"
proof -
  from pop obtain ls where b: "bioactivities s = Some ls" and bin: "binary ls"
    by (auto simp: populated_def split: option.splits)
  from al b have len: "length (molecules s) = length ls" by (simp add: aligned_def)
  define th where "th = (if scoring_metric s = SSD then 0 else the t)"
  define zs where "zs = zip (molecules s) ls"
  have loop: "cf_loop th (bioactivities s) (List.enumerate 0 (molecules s)) cf_zero
              = Inr (cf_fold th cf_zero zs)"
    using cf_loop_Some [of 0 "molecules s" ls th cf_zero] len b by (simp add: zs_def)
  have "\<forall>z \<in> set zs. snd z = 0 \<or> snd z = 1"
    using bin by (auto simp: zs_def binary_def list_all_iff dest: set_zip_rightD)
  from cf_fold_sum [OF this, of th cf_zero]
  have "np_sum (cf_matrix (cf_fold th cf_zero zs)) = length zs"
    by (simp add: np_sum_def cf_matrix_def cf_zero_def)
  then have sum: "np_sum (cf_matrix (cf_fold th cf_zero zs)) = n_molecules s"
    using len nm by (simp add: zs_def)
  from thr have "\<not> (scoring_metric s = Similarity \<and> t = None)" by simp
  then have "confusion_matrix s t = Inr (cf_matrix (cf_fold th cf_zero zs))"
    using loop sum by (simp add: confusion_matrix_def th_def [symmetric])
  with sum show ?thesis by blast
qed

end
